theory Spec2Isabelle
  imports Complex_Main
begin

section \<open>Data model (types.ts)\<close>

text \<open>
  The annotation editor computes with JavaScript numbers. They are modelled as exact
  reals: every comparison, \<open>Math.min\<close>, \<open>Math.max\<close>, \<open>Math.abs\<close>,
  \<open>Math.floor\<close> and \<open>Math.sqrt\<close> of the source is the corresponding operation
  on \<open>real\<close>. The image loader is the exception: there the rounding of the source's
  arithmetic is part of the model. Field names carry a prefix where the source's name is a HOL constant
  or an Isabelle keyword (\<open>x\<close>, \<open>id\<close>, \<open>text\<close>).
\<close>

record point =
  p_x :: real
  p_y :: real

record rectHighlight =
  rect_x :: real
  rect_y :: real
  rect_width :: real
  rect_height :: real
  rect_color :: string

record brushStroke =
  points :: "point list"
  brushSize :: real

record brushHighlight =
  strokes :: "brushStroke list"
  opacity :: real
  brush_color :: string

datatype highlight = Rect rectHighlight | Brush brushHighlight

record reply =
  reply_id :: string
  reply_text :: string
  reply_timestamp :: real

record annotation =
  ann_id :: string
  ann_text :: string
  ann_highlight :: highlight
  ann_color :: string
  ann_timestamp :: real
  replies :: "reply list"
  completed :: bool

section \<open>Geometry and hit-testing (AnnotationEditor)\<close>

definition distanceToLineSegment :: "point \<Rightarrow> point \<Rightarrow> point \<Rightarrow> real" where
  "distanceToLineSegment pt p1 p2 =
     (let dx = p_x p2 - p_x p1;
          dy = p_y p2 - p_y p1;
          lengthSquared = dx * dx + dy * dy
      in if lengthSquared = 0
         then sqrt ((p_x pt - p_x p1)\<^sup>2 + (p_y pt - p_y p1)\<^sup>2)
         else
           let t0 = ((p_x pt - p_x p1) * dx + (p_y pt - p_y p1) * dy) / lengthSquared;
               t = max 0 (min 1 t0);
               projX = p_x p1 + t * dx;
               projY = p_y p1 + t * dy
           in sqrt ((p_x pt - projX)\<^sup>2 + (p_y pt - projY)\<^sup>2))"

text \<open>
  The \<open>for\<close> loop of \<open>isPointNearStroke\<close>, from index \<open>i\<close> on. The bound
  \<open>stroke.points.length - 1\<close> is computed on integers: it is \<open>-1\<close> for a stroke
  without points.
\<close>

function isPointNearStroke_from :: "point \<Rightarrow> brushStroke \<Rightarrow> real \<Rightarrow> nat \<Rightarrow> bool" where
  "isPointNearStroke_from pt stroke threshold i =
     (if int i < int (length (points stroke)) - 1
      then (if distanceToLineSegment pt (points stroke ! i) (points stroke ! (i + 1)) \<le> threshold
            then True
            else isPointNearStroke_from pt stroke threshold (i + 1))
      else False)"
  by pat_completeness auto
termination
  by (relation "measure (\<lambda>(pt, stroke, threshold, i). length (points stroke) - i)") auto

declare isPointNearStroke_from.simps [simp del]

definition isPointNearStroke :: "point \<Rightarrow> brushStroke \<Rightarrow> bool" where
  "isPointNearStroke pt stroke =
     (let threshold = brushSize stroke / 2 + 5
      in isPointNearStroke_from pt stroke threshold 0)"

definition isPointInRect :: "point \<Rightarrow> rectHighlight \<Rightarrow> bool" where
  "isPointInRect pt rect \<longleftrightarrow>
     p_x pt \<ge> rect_x rect \<and> p_x pt \<le> rect_x rect + rect_width rect \<and>
     p_y pt \<ge> rect_y rect \<and> p_y pt \<le> rect_y rect + rect_height rect"

text \<open>The inner \<open>for (const stroke of ann.highlight.strokes)\<close> with its early return.\<close>

fun nearAnyStroke :: "point \<Rightarrow> brushStroke list \<Rightarrow> bool" where
  "nearAnyStroke pt [] = False"
| "nearAnyStroke pt (stroke # rest) =
     (if isPointNearStroke pt stroke then True else nearAnyStroke pt rest)"

text \<open>The outer \<open>for (const ann of activeAnnotations)\<close>; \<open>null\<close> is \<open>None\<close>.\<close>

fun findAnnotation_loop :: "point \<Rightarrow> annotation list \<Rightarrow> annotation option" where
  "findAnnotation_loop canvasPos [] = None"
| "findAnnotation_loop canvasPos (ann # rest) =
     (case ann_highlight ann of
        Rect r \<Rightarrow>
          if isPointInRect canvasPos r then Some ann
          else findAnnotation_loop canvasPos rest
      | Brush b \<Rightarrow>
          if nearAnyStroke canvasPos (strokes b) then Some ann
          else findAnnotation_loop canvasPos rest)"

definition findAnnotationAtPoint :: "annotation list \<Rightarrow> point \<Rightarrow> annotation option" where
  "findAnnotationAtPoint annotations canvasPos =
     (let activeAnnotations = rev (filter (\<lambda>a. \<not> completed a) annotations)
      in findAnnotation_loop canvasPos activeAnnotations)"

text \<open>
  The hit test the specification names for a highlight: rectangle containment, or the
  near-stroke test for some stroke of a brush highlight.
\<close>

fun highlightContains :: "point \<Rightarrow> highlight \<Rightarrow> bool" where
  "highlightContains pt (Rect r) = isPointInRect pt r"
| "highlightContains pt (Brush b) = (\<exists>s \<in> set (strokes b). isPointNearStroke pt s)"

section \<open>Annotation store (annotations/page.tsx)\<close>

definition handleMarkComplete :: "string \<Rightarrow> annotation list \<Rightarrow> annotation list" where
  "handleMarkComplete ident prev =
     map (\<lambda>a. if ann_id a = ident then a\<lparr>completed := True\<rparr> else a) prev"

definition handleAddAnnotation :: "annotation \<Rightarrow> annotation list \<Rightarrow> annotation list" where
  "handleAddAnnotation newAnnotation prev = prev @ [newAnnotation]"

definition handleClearAnnotations :: "annotation list \<Rightarrow> annotation list" where
  "handleClearAnnotations prev = []"

subsection \<open>Persistence effects\<close>

text \<open>
  The page keeps one \<open>localStorage\<close> item: \<open>getItem\<close> yields \<open>null\<close>
  (\<open>None\<close>) or a string. Both effects take the platform's \<open>JSON.parse\<close> and
  \<open>JSON.stringify\<close> as parameters (\<open>parse\<close>, \<open>stringify\<close>). A parse either
  throws, or yields a value that is not an array, or yields an array, which the page stores
  as its annotation list without further checks: \<open>ParsedArray\<close> when the elements are
  annotations, \<open>UntypedArray\<close> when they are not, in which case the list holds values
  that this model has no type for. \<open>setItem\<close> may throw (the quota is exceeded, say);
  the effect catches and logs that, so the outcome of the platform call is an input of the
  model.
\<close>

datatype parsed = SyntaxError | NotArray | ParsedArray "annotation list" | UntypedArray

datatype setItem_outcome = Stored | Throws

text \<open>What the load effect does with \<open>setAnnotations\<close>.\<close>

datatype setAnnotationsCall = NotCalled | CalledWith "annotation list" | CalledWithUntyped

definition loadEffect_call :: "(string \<Rightarrow> parsed) \<Rightarrow> string option \<Rightarrow> setAnnotationsCall" where
  "loadEffect_call parse storage =
     (case storage of
        None \<Rightarrow> NotCalled
      | Some stored \<Rightarrow>
          if stored = [] then NotCalled
          else (case parse stored of
                  ParsedArray arr \<Rightarrow> CalledWith arr
                | UntypedArray \<Rightarrow> CalledWithUntyped
                | NotArray \<Rightarrow> NotCalled
                | SyntaxError \<Rightarrow> NotCalled))"

text \<open>
  The annotation list after the load effect; \<open>None\<close> when it holds values that are not
  annotations.
\<close>

definition loadEffect ::
    "(string \<Rightarrow> parsed) \<Rightarrow> string option \<Rightarrow> annotation list \<Rightarrow> annotation list option" where
  "loadEffect parse storage annotations =
     (case loadEffect_call parse storage of
        NotCalled \<Rightarrow> Some annotations
      | CalledWith arr \<Rightarrow> Some arr
      | CalledWithUntyped \<Rightarrow> None)"

definition autoSaveSkips :: "annotation list \<Rightarrow> string option \<Rightarrow> bool" where
  "autoSaveSkips annotations storage \<longleftrightarrow>
     length annotations = 0 \<and>
     (case storage of None \<Rightarrow> False | Some stored \<Rightarrow> stored \<noteq> [] \<and> stored \<noteq> ''[]'')"

definition autoSaveEffect ::
    "(annotation list \<Rightarrow> string) \<Rightarrow> setItem_outcome \<Rightarrow> annotation list \<Rightarrow> string option
      \<Rightarrow> string option" where
  "autoSaveEffect stringify outcome annotations storage =
     (if autoSaveSkips annotations storage then storage
      else (case outcome of
              Stored \<Rightarrow> Some (stringify annotations)
            | Throws \<Rightarrow> storage))"

section \<open>Viewport transform (AnnotationEditor, wheel handler)\<close>

record domRect =
  r_left :: real
  r_top :: real
  r_width :: real
  r_height :: real

text \<open>
  What the handlers read from the canvas element: its bitmap size, the result of
  \<open>parseFloat\<close> on its style size (\<open>None\<close> for \<open>NaN\<close>) and its bounding
  rectangle. A ref that is not mounted is \<open>None\<close>.
\<close>

record canvasEl =
  cv_width :: real
  cv_height :: real
  style_width :: "real option"
  style_height :: "real option"
  cv_rect :: domRect

record dom =
  containerRef :: "domRect option"
  canvasRef :: "canvasEl option"

record viewTransform =
  t_x :: real
  t_y :: real
  t_scale :: real

record bounds =
  minX :: real
  maxX :: real
  minY :: real
  maxY :: real

definition getBounds :: "dom \<Rightarrow> real \<Rightarrow> bounds" where
  "getBounds d currentScale =
     (case (containerRef d, canvasRef d) of
        (Some container, Some canvas) \<Rightarrow>
          let canvasBaseWidth = (case style_width canvas of None \<Rightarrow> cv_width canvas | Some w \<Rightarrow> w);
              canvasBaseHeight = (case style_height canvas of None \<Rightarrow> cv_height canvas | Some h \<Rightarrow> h);
              scaledWidth = canvasBaseWidth * currentScale;
              scaledHeight = canvasBaseHeight * currentScale;
              overflowX = max 0 ((scaledWidth - r_width container) / 2);
              overflowY = max 0 ((scaledHeight - r_height container) / 2)
          in \<lparr> minX = - overflowX, maxX = overflowX, minY = - overflowY, maxY = overflowY \<rparr>
      | _ \<Rightarrow> \<lparr> minX = 0, maxX = 0, minY = 0, maxY = 0 \<rparr>)"

definition MAX_OVERSHOOT :: real where "MAX_OVERSHOOT = 200"
definition MIN_ELASTIC_SCALE :: real where "MIN_ELASTIC_SCALE = 0.5"
definition MAX_ELASTIC_SCALE :: real where "MAX_ELASTIC_SCALE = 5.0"

record wheelEvent =
  deltaX :: real
  deltaY :: real
  ctrlKey :: bool
  metaKey :: bool

definition onWheel_zoom :: "wheelEvent \<Rightarrow> viewTransform \<Rightarrow> viewTransform" where
  "onWheel_zoom e prev =
     (let zoomSensitivity = 0.002;
          delta = - deltaY e * zoomSensitivity;
          newScale0 = t_scale prev + delta;
          newScale1 = (if newScale0 < MIN_ELASTIC_SCALE then MIN_ELASTIC_SCALE else newScale0);
          newScale2 = (if newScale1 > MAX_ELASTIC_SCALE then MAX_ELASTIC_SCALE else newScale1)
      in prev\<lparr>t_scale := newScale2\<rparr>)"

definition onWheel_pan :: "dom \<Rightarrow> wheelEvent \<Rightarrow> viewTransform \<Rightarrow> viewTransform" where
  "onWheel_pan d e prev =
     (let b = getBounds d (t_scale prev);
          dx0 = - deltaX e;
          dy0 = - deltaY e;
          ovX0 = 0;
          ovX1 = (if t_x prev > maxX b then t_x prev - maxX b else ovX0);
          currentOvershootX = (if t_x prev < minX b then minX b - t_x prev else ovX1);
          ovY0 = 0;
          ovY1 = (if t_y prev > maxY b then t_y prev - maxY b else ovY0);
          currentOvershootY = (if t_y prev < minY b then minY b - t_y prev else ovY1);
          resistanceX = max 0 (1 - currentOvershootX / MAX_OVERSHOOT);
          resistanceY = max 0 (1 - currentOvershootY / MAX_OVERSHOOT);
          dx1 = (if t_x prev > maxX b \<and> dx0 > 0 then dx0 * resistanceX else dx0);
          dx = (if t_x prev < minX b \<and> dx1 < 0 then dx1 * resistanceX else dx1);
          dy1 = (if t_y prev > maxY b \<and> dy0 > 0 then dy0 * resistanceY else dy0);
          dy = (if t_y prev < minY b \<and> dy1 < 0 then dy1 * resistanceY else dy1)
      in prev\<lparr>t_x := t_x prev + dx, t_y := t_y prev + dy\<rparr>)"

definition onWheel :: "dom \<Rightarrow> wheelEvent \<Rightarrow> viewTransform \<Rightarrow> viewTransform" where
  "onWheel d e prev =
     (if ctrlKey e \<or> metaKey e then onWheel_zoom e prev else onWheel_pan d e prev)"

text \<open>The callback of the 500 ms timer that the wheel handler restarts on every event.\<close>

definition onWheel_settle :: "dom \<Rightarrow> viewTransform \<Rightarrow> viewTransform" where
  "onWheel_settle d prev =
     (let targetScale0 = t_scale prev;
          targetScale1 = (if targetScale0 < 1 then 1 else targetScale0);
          targetScale = (if targetScale1 > 3 then 3 else targetScale1);
          finalBounds = getBounds d targetScale;
          targetX0 = t_x prev;
          targetY0 = t_y prev
      in if targetScale = 1
         then \<lparr> t_x = 0, t_y = 0, t_scale = targetScale \<rparr>
         else
           let targetX1 = (if targetX0 < minX finalBounds then minX finalBounds else targetX0);
               targetX = (if targetX1 > maxX finalBounds then maxX finalBounds else targetX1);
               targetY1 = (if targetY0 < minY finalBounds then minY finalBounds else targetY0);
               targetY = (if targetY1 > maxY finalBounds then maxY finalBounds else targetY1)
           in \<lparr> t_x = targetX, t_y = targetY, t_scale = targetScale \<rparr>)"

text \<open>
  The elastic rule as the specification words it, for one axis: how far \<open>v\<close> lies past
  the bound it has crossed, and whether a delta pushes further out.
\<close>

definition overshoot :: "real \<Rightarrow> real \<Rightarrow> real \<Rightarrow> real" where
  "overshoot lo hi v = (if v > hi then v - hi else if v < lo then lo - v else 0)"

definition pushesOutward :: "real \<Rightarrow> real \<Rightarrow> real \<Rightarrow> real \<Rightarrow> bool" where
  "pushesOutward lo hi v delta \<longleftrightarrow> (v > hi \<and> delta > 0) \<or> (v < lo \<and> delta < 0)"

definition clampTo :: "real \<Rightarrow> real \<Rightarrow> real \<Rightarrow> real" where
  "clampTo lo hi v = max lo (min hi v)"


section \<open>Drawing gestures (AnnotationEditor, mouse handlers)\<close>

datatype tool = SelectTool | BrushTool

record mouseEvent =
  clientX :: real
  clientY :: real

text \<open>
  The editor's state: the \<open>useState\<close> cells the handlers read and write, and the
  annotation list and selection it receives from the page and changes through
  \<open>onAddAnnotation\<close> and \<open>onSelectAnnotation\<close>.
\<close>

record editor =
  annotations :: "annotation list"
  selectedAnnotationId :: "string option"
  activeTool :: tool
  ed_brushSize :: real
  brushOpacity :: real
  brushSettingsVisible :: bool
  isDrawing :: bool
  dragStart :: "point option"
  dragEnd :: "point option"
  brushPoints :: "point list"
  pendingStrokes :: "brushStroke list"
  showInput :: bool
  pendingHighlight :: "highlight option"
  inputText :: string
  inputPosition :: "point option"
  pendingColor :: "string option"

definition annotationColors :: "string list" where
  "annotationColors =
     [''rgba(255, 180, 0, 0.25)'', ''rgba(0, 200, 150, 0.25)'', ''rgba(100, 150, 255, 0.25)'',
      ''rgba(255, 100, 100, 0.25)'', ''rgba(180, 100, 255, 0.25)'', ''rgba(100, 220, 220, 0.25)'']"

definition paletteColor :: "annotation list \<Rightarrow> string" where
  "paletteColor anns = annotationColors ! (length anns mod length annotationColors)"

definition getCanvasPos :: "canvasEl \<Rightarrow> mouseEvent \<Rightarrow> point" where
  "getCanvasPos canvas e =
     (let rect = cv_rect canvas;
          scaleX = cv_width canvas / r_width rect;
          scaleY = cv_height canvas / r_height rect
      in \<lparr> p_x = (clientX e - r_left rect) * scaleX, p_y = (clientY e - r_top rect) * scaleY \<rparr>)"

definition constrainPopoverPosition :: "dom \<Rightarrow> point \<Rightarrow> point" where
  "constrainPopoverPosition d pos =
     (case containerRef d of
        None \<Rightarrow> pos
      | Some containerRect \<Rightarrow>
          let POPOVER_WIDTH = 256;
              POPOVER_HEIGHT = 180;
              PADDING = 16;
              x0 = p_x pos;
              y0 = p_y pos;
              x1 = (if x0 + POPOVER_WIDTH > r_width containerRect - PADDING
                    then r_width containerRect - POPOVER_WIDTH - PADDING else x0);
              constrainedX = (if x1 < PADDING then PADDING else x1);
              y1 = (if y0 + POPOVER_HEIGHT > r_height containerRect - PADDING
                    then r_height containerRect - POPOVER_HEIGHT - PADDING else y0);
              constrainedY = (if y1 < PADDING then PADDING else y1)
          in \<lparr> p_x = constrainedX, p_y = constrainedY \<rparr>)"

definition handleMouseDown :: "dom \<Rightarrow> mouseEvent \<Rightarrow> editor \<Rightarrow> editor" where
  "handleMouseDown d e st =
     (case canvasRef d of
        None \<Rightarrow> st
      | Some canvas \<Rightarrow>
          if showInput st \<and> activeTool st = SelectTool then st
          else
            let canvasPos = getCanvasPos canvas e;
                clickedAnnotation =
                  (if length (pendingStrokes st) = 0 \<and> \<not> showInput st
                   then findAnnotationAtPoint (annotations st) canvasPos else None)
            in case clickedAnnotation of
                 Some clicked \<Rightarrow> st\<lparr>selectedAnnotationId := Some (ann_id clicked)\<rparr>
               | None \<Rightarrow>
                   let st1 = st\<lparr>isDrawing := True, selectedAnnotationId := None\<rparr>
                   in case activeTool st of
                        SelectTool \<Rightarrow> st1\<lparr>dragStart := Some canvasPos, dragEnd := Some canvasPos\<rparr>
                      | BrushTool \<Rightarrow>
                          st1\<lparr>brushPoints := [canvasPos],
                              pendingColor :=
                                (if length (pendingStrokes st) = 0
                                 then Some (paletteColor (annotations st))
                                 else pendingColor st)\<rparr>)"

text \<open>
  The window listeners exist only while \<open>isDrawing\<close> holds: the effect that registers
  them returns at once otherwise.
\<close>

definition handleWindowMouseMove :: "dom \<Rightarrow> mouseEvent \<Rightarrow> editor \<Rightarrow> editor" where
  "handleWindowMouseMove d e st =
     (if \<not> isDrawing st then st
      else case canvasRef d of
        None \<Rightarrow> st
      | Some canvas \<Rightarrow>
          let rect = cv_rect canvas;
              scaleX = cv_width canvas / r_width rect;
              scaleY = cv_height canvas / r_height rect;
              rawX = clientX e - r_left rect;
              rawY = clientY e - r_top rect;
              x = max 0 (min (cv_width canvas) (rawX * scaleX));
              y = max 0 (min (cv_height canvas) (rawY * scaleY));
              pos = \<lparr> p_x = x, p_y = y \<rparr>
          in if activeTool st = SelectTool \<and> dragStart st \<noteq> None then st\<lparr>dragEnd := Some pos\<rparr>
             else if activeTool st = BrushTool then st\<lparr>brushPoints := brushPoints st @ [pos]\<rparr>
             else st)"

text \<open>\<open>pendingColor || annotationColors[...]\<close>: \<open>null\<close> and the empty string are falsy.\<close>

definition nextColor :: "editor \<Rightarrow> string" where
  "nextColor st =
     (case pendingColor st of
        Some c \<Rightarrow> if c \<noteq> [] then c else paletteColor (annotations st)
      | None \<Rightarrow> paletteColor (annotations st))"

definition handleWindowMouseUp :: "dom \<Rightarrow> mouseEvent \<Rightarrow> editor \<Rightarrow> editor" where
  "handleWindowMouseUp d e st =
     (if \<not> isDrawing st then st
      else
        let st1 = st\<lparr>isDrawing := False\<rparr>;
            screenPos =
              (case containerRef d of
                 Some rect \<Rightarrow> \<lparr> p_x = clientX e - r_left rect, p_y = clientY e - r_top rect \<rparr>
               | None \<Rightarrow> \<lparr> p_x = 0, p_y = 0 \<rparr>);
            st2 =
              (case (activeTool st, dragStart st, dragEnd st) of
                 (SelectTool, Some ds, Some de) \<Rightarrow>
                   let x = min (p_x ds) (p_x de);
                       y = min (p_y ds) (p_y de);
                       w = \<bar>p_x de - p_x ds\<bar>;
                       h = \<bar>p_y de - p_y ds\<bar>
                   in if w > 10 \<and> h > 10
                      then st1\<lparr>pendingHighlight :=
                                 Some (Rect \<lparr> rect_x = x, rect_y = y, rect_width = w, rect_height = h,
                                             rect_color = nextColor st \<rparr>),
                               showInput := True,
                               inputPosition := Some (constrainPopoverPosition d screenPos)\<rparr>
                      else st1
               | _ \<Rightarrow>
                   if activeTool st = BrushTool \<and> length (brushPoints st) > 2
                   then
                     let newStroke = \<lparr> points = brushPoints st, brushSize = ed_brushSize st \<rparr>;
                         st1' = st1\<lparr>pendingStrokes := pendingStrokes st @ [newStroke]\<rparr>
                     in if \<not> showInput st
                        then st1'\<lparr>showInput := True,
                                  inputPosition := Some (constrainPopoverPosition d screenPos)\<rparr>
                        else st1'
                   else st1)
        in st2\<lparr>dragStart := None, dragEnd := None, brushPoints := []\<rparr>)"

text \<open>\<open>Date.now().toString()\<close>: the decimal digits of a natural number.\<close>

function showNat :: "nat \<Rightarrow> string" where
  "showNat n =
     (if n < 10 then [char_of (48 + n)]
      else showNat (n div 10) @ [char_of (48 + n mod 10)])"
  by pat_completeness auto
termination
  by (relation "measure (\<lambda>n. n)") auto

declare showNat.simps [simp del]

text \<open>\<open>String.prototype.trim\<close>, on the ASCII white space and line terminators.\<close>

definition isWhiteSpace :: "char \<Rightarrow> bool" where
  "isWhiteSpace c \<longleftrightarrow> c \<in> set [CHR '' '', CHR 0x09, CHR 0x0A, CHR 0x0B, CHR 0x0C, CHR 0x0D]"

definition trim :: "string \<Rightarrow> string" where
  "trim s = rev (dropWhile isWhiteSpace (rev (dropWhile isWhiteSpace s)))"

definition highlightColor :: "highlight \<Rightarrow> string" where
  "highlightColor h = (case h of Rect r \<Rightarrow> rect_color r | Brush b \<Rightarrow> brush_color b)"

text \<open>
  \<open>handleSaveAnnotation\<close> reads the clock twice, for the id and for the timestamp; both
  readings are arguments.
\<close>

definition handleSaveAnnotation :: "nat \<Rightarrow> nat \<Rightarrow> editor \<Rightarrow> editor" where
  "handleSaveAnnotation nowId nowStamp st =
     (let chosen =
            (case pendingColor st of
               Some c \<Rightarrow>
                 if length (pendingStrokes st) > 0 \<and> c \<noteq> []
                 then Some (Brush \<lparr> strokes = pendingStrokes st, opacity = brushOpacity st,
                                    brush_color = c \<rparr>)
                 else pendingHighlight st
             | None \<Rightarrow> pendingHighlight st)
      in case chosen of
           None \<Rightarrow> st
         | Some h \<Rightarrow>
             let newAnnotation =
                   \<lparr> ann_id = showNat nowId, ann_text = trim (inputText st), ann_highlight = h,
                     ann_color = highlightColor h, ann_timestamp = real nowStamp,
                     replies = [], completed = False \<rparr>
             in st\<lparr>annotations := handleAddAnnotation newAnnotation (annotations st),
                   pendingHighlight := None, pendingStrokes := [], pendingColor := None,
                   inputText := [], showInput := False, inputPosition := None\<rparr>)"

definition handleDiscard :: "editor \<Rightarrow> editor" where
  "handleDiscard st =
     st\<lparr>pendingHighlight := None, pendingStrokes := [], pendingColor := None,
        inputText := [], showInput := False, inputPosition := None\<rparr>"

text \<open>The keyboard shortcuts, for a key pressed outside an input field.\<close>

definition handleKeyDown :: "char \<Rightarrow> editor \<Rightarrow> editor" where
  "handleKeyDown k st =
     (let st1 = (if k = CHR ''['' then st\<lparr>ed_brushSize := max 5 (ed_brushSize st - 5)\<rparr> else st);
          st2 = (if k = CHR '']'' then st1\<lparr>ed_brushSize := min 100 (ed_brushSize st1 + 5)\<rparr> else st1);
          st3 = (if k = CHR ''b'' \<or> k = CHR ''B''
                 then (if activeTool st = BrushTool
                       then st2\<lparr>brushSettingsVisible := \<not> brushSettingsVisible st2\<rparr>
                       else st2\<lparr>activeTool := BrushTool, brushSettingsVisible := True\<rparr>)
                 else st2)
      in if k = CHR ''s'' \<or> k = CHR ''S''
         then st3\<lparr>activeTool := SelectTool, brushSettingsVisible := False\<rparr>
         else st3)"

text \<open>
  What can happen to the editor. Every event comes with the layout of the page at that
  moment, since panning and zooming move the canvas's bounding rectangle between events.
  The last event is the page's: marking an annotation complete, which also drops the
  selection of that annotation. The image, and with it the bitmap size, is loaded once, when
  the editor mounts: \<open>handleFileUpload\<close>, which would replace the image and clear the
  list, is bound to no element of the editor.
\<close>

datatype event =
    MouseDown mouseEvent
  | MouseMove mouseEvent
  | MouseUp mouseEvent
  | Save nat nat
  | Discard
  | KeyDown char
  | InputChange string
  | BrushSizeChange real
  | BrushOpacityChange real
  | MarkComplete string

fun step :: "dom \<times> event \<Rightarrow> editor \<Rightarrow> editor" where
  "step (d, MouseDown e) st = handleMouseDown d e st"
| "step (d, MouseMove e) st = handleWindowMouseMove d e st"
| "step (d, MouseUp e) st = handleWindowMouseUp d e st"
| "step (d, Save nowId nowStamp) st = handleSaveAnnotation nowId nowStamp st"
| "step (d, Discard) st = handleDiscard st"
| "step (d, KeyDown k) st = handleKeyDown k st"
| "step (d, InputChange s) st = st\<lparr>inputText := s\<rparr>"
| "step (d, BrushSizeChange v) st = st\<lparr>ed_brushSize := v\<rparr>"
| "step (d, BrushOpacityChange v) st = st\<lparr>brushOpacity := v\<rparr>"
| "step (d, MarkComplete i) st =
     st\<lparr>annotations := handleMarkComplete i (annotations st),
        selectedAnnotationId :=
          (if selectedAnnotationId st = Some i then None else selectedAnnotationId st)\<rparr>"


definition initialEditor :: editor where
  "initialEditor =
     \<lparr> annotations = [], selectedAnnotationId = None, activeTool = SelectTool,
       ed_brushSize = 20, brushOpacity = 0.4, brushSettingsVisible = True, isDrawing = False,
       dragStart = None, dragEnd = None, brushPoints = [], pendingStrokes = [],
       showInput = False, pendingHighlight = None, inputText = [], inputPosition = None,
       pendingColor = None \<rparr>"

text \<open>
  A point lies in a bitmap of size \<open>W\<close> by \<open>H\<close>; a highlight lies in it when the two
  corners of a rectangle, or all points of all strokes, do.
\<close>

definition inBitmap :: "real \<Rightarrow> real \<Rightarrow> point \<Rightarrow> bool" where
  "inBitmap W H p \<longleftrightarrow> 0 \<le> p_x p \<and> p_x p \<le> W \<and> 0 \<le> p_y p \<and> p_y p \<le> H"





text \<open>
  A layout shows a bitmap of size \<open>W\<close> by \<open>H\<close> when the mounted canvas has that bitmap
  size (never negative) and a bounding rectangle of positive size. A drag starts within the
  bitmap when the canvas position of its \<open>mousedown\<close>, as \<open>getCanvasPos\<close> computes
  it, lies in the bitmap. A \<open>mousedown\<close> lies inside the canvas's bounding rectangle
  when its client position does, edges included.
\<close>

definition canvasShows :: "real \<Rightarrow> real \<Rightarrow> canvasEl \<Rightarrow> bool" where
  "canvasShows W H canvas \<longleftrightarrow>
     cv_width canvas = W \<and> cv_height canvas = H \<and> 0 \<le> W \<and> 0 \<le> H \<and>
     0 < r_width (cv_rect canvas) \<and> 0 < r_height (cv_rect canvas)"

definition insideRect :: "domRect \<Rightarrow> mouseEvent \<Rightarrow> bool" where
  "insideRect rect e \<longleftrightarrow>
     r_left rect \<le> clientX e \<and> clientX e \<le> r_left rect + r_width rect \<and>
     r_top rect \<le> clientY e \<and> clientY e \<le> r_top rect + r_height rect"


section \<open>The annotation list over a run of the page (annotations/page.tsx)\<close>












section \<open>Image loader (AnnotationEditor, loadImage)\<close>

text \<open>
  The loader floors a product of a quotient, so a rounding error in the last bit can cost a
  whole pixel. Here, and only here, the arithmetic of the source is modelled as it runs:
  every quotient and product is rounded to the nearest binary64 number, ties to even. The
  exponent range is not modelled (no overflow, no subnormal numbers); the loader's values
  lie far inside it.
\<close>

definition roundHalfEven :: "real \<Rightarrow> int" where
  "roundHalfEven y =
     (let f = \<lfloor>y\<rfloor>; r = y - of_int f
      in if r < 1/2 then f else if r > 1/2 then f + 1 else if even f then f else f + 1)"

definition toDouble :: "real \<Rightarrow> real" where
  "toDouble x =
     (if x = 0 then 0
      else let e = \<lfloor>log 2 \<bar>x\<bar>\<rfloor>
           in sgn x * of_int (roundHalfEven (\<bar>x\<bar> * 2 powr of_int (52 - e))) * 2 powr of_int (e - 52))"

text \<open>
  \<open>img.onload\<close>: the image it hands to \<open>setOriginalImage\<close>. Image sizes are
  integers. The three ways the downscale can fall back to the original are inputs: no 2d
  context for the temporary canvas, no blob from \<open>toBlob\<close>, and a downscaled image
  that fails to load. A canvas without pixels yields no blob. A division by zero yields
  \<open>Infinity\<close> in the source, so \<open>Math.min\<close> then returns the other ratio.
\<close>

definition MAX_CANVAS_DIMENSION :: real where "MAX_CANVAS_DIMENSION = 8192"

record image =
  img_width :: int
  img_height :: int

record downscaleEnv =
  ctx_available :: bool
  blob_created :: bool
  downscaled_loads :: bool

definition downscaleFactor :: "image \<Rightarrow> real" where
  "downscaleFactor img =
     (if img_height img = 0 then toDouble (MAX_CANVAS_DIMENSION / real_of_int (img_width img))
      else if img_width img = 0 then toDouble (MAX_CANVAS_DIMENSION / real_of_int (img_height img))
      else min (toDouble (MAX_CANVAS_DIMENSION / real_of_int (img_width img)))
               (toDouble (MAX_CANVAS_DIMENSION / real_of_int (img_height img))))"

definition img_onload :: "downscaleEnv \<Rightarrow> image \<Rightarrow> image" where
  "img_onload env img =
     (if real_of_int (img_width img) > MAX_CANVAS_DIMENSION \<or>
         real_of_int (img_height img) > MAX_CANVAS_DIMENSION
      then
        let scale = downscaleFactor img;
            finalWidth = \<lfloor>toDouble (real_of_int (img_width img) * scale)\<rfloor>;
            finalHeight = \<lfloor>toDouble (real_of_int (img_height img) * scale)\<rfloor>
        in if \<not> ctx_available env then img
           else if \<not> (blob_created env \<and> finalWidth > 0 \<and> finalHeight > 0) then img
           else if \<not> downscaled_loads env then img
           else \<lparr> img_width = finalWidth, img_height = finalHeight \<rparr>
      else img)"

definition downscaleSucceeds :: "downscaleEnv \<Rightarrow> bool" where
  "downscaleSucceeds env \<longleftrightarrow> ctx_available env \<and> blob_created env \<and> downscaled_loads env"

text \<open>
  The factor of the specification in exact arithmetic, and the largest relative error of
  one rounding.
\<close>

definition exactFactor :: "image \<Rightarrow> real" where
  "exactFactor img =
     min (8192 / real_of_int (img_width img)) (8192 / real_of_int (img_height img))"

definition unitRoundoff :: real where
  "unitRoundoff = 1 / 2 ^ 53"

section \<open>Specification-side notions and sample data\<close>

text \<open>
  The Euclidean distance of two points and the point of the segment from \<open>a\<close> to
  \<open>b\<close> at parameter \<open>t\<close>; with them, the projection-and-clamp distance in the
  words of the specification.
\<close>

definition euclid :: "point \<Rightarrow> point \<Rightarrow> real" where
  "euclid p q = sqrt ((p_x p - p_x q)\<^sup>2 + (p_y p - p_y q)\<^sup>2)"

definition segmentPoint :: "point \<Rightarrow> point \<Rightarrow> real \<Rightarrow> point" where
  "segmentPoint a b t = \<lparr> p_x = p_x a + t * (p_x b - p_x a), p_y = p_y a + t * (p_y b - p_y a) \<rparr>"

definition projectionClampDistance :: "point \<Rightarrow> point \<Rightarrow> point \<Rightarrow> real" where
  "projectionClampDistance pt a b =
     (if a = b then euclid pt a
      else euclid pt (segmentPoint a b
             (max 0 (min 1 (((p_x pt - p_x a) * (p_x b - p_x a) + (p_y pt - p_y a) * (p_y b - p_y a))
                / ((p_x b - p_x a)\<^sup>2 + (p_y b - p_y a)\<^sup>2))))))"

text \<open>Concrete annotations, a stroke and a page layout for the examples.\<close>

definition sampleRectA :: annotation where
  "sampleRectA = \<lparr> ann_id = ''1'', ann_text = ''first'',
     ann_highlight = Rect \<lparr> rect_x = 0, rect_y = 0, rect_width = 10, rect_height = 10,
       rect_color = ''rgba(255, 180, 0, 0.25)'' \<rparr>,
     ann_color = ''rgba(255, 180, 0, 0.25)'', ann_timestamp = 1, replies = [], completed = False \<rparr>"

definition sampleRectB :: annotation where
  "sampleRectB = \<lparr> ann_id = ''2'', ann_text = ''second'',
     ann_highlight = Rect \<lparr> rect_x = 5, rect_y = 5, rect_width = 10, rect_height = 10,
       rect_color = ''rgba(0, 200, 150, 0.25)'' \<rparr>,
     ann_color = ''rgba(0, 200, 150, 0.25)'', ann_timestamp = 2, replies = [], completed = False \<rparr>"

definition sampleStroke :: brushStroke where
  "sampleStroke = \<lparr> points = [\<lparr> p_x = 0, p_y = 0 \<rparr>, \<lparr> p_x = 10, p_y = 0 \<rparr>, \<lparr> p_x = 10, p_y = 10 \<rparr>],
     brushSize = 20 \<rparr>"

definition sampleDom :: dom where
  "sampleDom = \<lparr> containerRef = Some \<lparr> r_left = 0, r_top = 0, r_width = 800, r_height = 600 \<rparr>,
     canvasRef = Some \<lparr> cv_width = 1600, cv_height = 1200,
       style_width = Some 800, style_height = Some 600,
       cv_rect = \<lparr> r_left = 0, r_top = 0, r_width = 800, r_height = 600 \<rparr> \<rparr> \<rparr>"

text \<open>
  A 500 by 400 bitmap shown at its own size, the gesture of the specification's scenario
  (a rectangle dragged from (10, 10) to (100, 80), with one move far outside the canvas,
  then the note and Save), and two gestures that are too small to count.
\<close>

definition sampleCanvasDom :: dom where
  "sampleCanvasDom =
     \<lparr> containerRef = Some \<lparr> r_left = 0, r_top = 0, r_width = 500, r_height = 400 \<rparr>,
       canvasRef = Some \<lparr> cv_width = 500, cv_height = 400,
         style_width = Some 500, style_height = Some 400,
         cv_rect = \<lparr> r_left = 0, r_top = 0, r_width = 500, r_height = 400 \<rparr> \<rparr> \<rparr>"



definition smallRectDrag :: editor where
  "smallRectDrag = initialEditor\<lparr>isDrawing := True,
     dragStart := Some \<lparr> p_x = 10, p_y = 10 \<rparr>, dragEnd := Some \<lparr> p_x = 15, p_y = 100 \<rparr>\<rparr>"

definition shortBrushDrag :: editor where
  "shortBrushDrag = initialEditor\<lparr>activeTool := BrushTool, isDrawing := True,
     brushPoints := [\<lparr> p_x = 10, p_y = 10 \<rparr>, \<lparr> p_x = 12, p_y = 11 \<rparr>]\<rparr>"

text \<open>
  The text that \<open>JSON.stringify\<close> produces for the list \<open>[sampleRectA]\<close>, and the
  platform's \<open>JSON.parse\<close> and \<open>JSON.stringify\<close> as far as the examples use them.
\<close>

definition sampleParse :: "string \<Rightarrow> parsed" where
  "sampleParse s =
     (if s = ''[]'' then ParsedArray []
      else if s = ''[{\"id\":\"1\",\"text\":\"first\",\"highlight\":{\"type\":\"rect\",\"x\":0,\"y\":0,\"width\":10,\"height\":10,\"color\":\"rgba(255, 180, 0, 0.25)\"},\"color\":\"rgba(255, 180, 0, 0.25)\",\"timestamp\":1,\"replies\":[],\"completed\":false}]''
      then ParsedArray [sampleRectA]
      else SyntaxError)"

definition sampleStringify :: "annotation list \<Rightarrow> string" where
  "sampleStringify L =
     (if L = [sampleRectA]
      then ''[{\"id\":\"1\",\"text\":\"first\",\"highlight\":{\"type\":\"rect\",\"x\":0,\"y\":0,\"width\":10,\"height\":10,\"color\":\"rgba(255, 180, 0, 0.25)\"},\"color\":\"rgba(255, 180, 0, 0.25)\",\"timestamp\":1,\"replies\":[],\"completed\":false}]''
      else ''[]'')"




definition sampleImage :: image where
  "sampleImage = \<lparr> img_width = 12000, img_height = 8000 \<rparr>"

definition unluckyImage :: image where
  "unluckyImage = \<lparr> img_width = 8474, img_height = 6000 \<rparr>"

definition allSucceed :: downscaleEnv where
  "allSucceed = \<lparr> ctx_available = True, blob_created = True, downscaled_loads = True \<rparr>"

definition noContext :: downscaleEnv where
  "noContext = \<lparr> ctx_available = False, blob_created = True, downscaled_loads = True \<rparr>"

section \<open>Hit-testing: proofs\<close>

lemma isPointNearStroke_from_iff:
  "isPointNearStroke_from pt stroke threshold i \<longleftrightarrow>
     (\<exists>j. i \<le> j \<and> j + 1 < length (points stroke) \<and>
          distanceToLineSegment pt (points stroke ! j) (points stroke ! (j + 1)) \<le> threshold)"
proof (induction pt stroke threshold i rule: isPointNearStroke_from.induct)
  case (1 pt stroke threshold i)
  let ?near = "\<lambda>j. distanceToLineSegment pt (points stroke ! j) (points stroke ! (j + 1)) \<le> threshold"
  show ?case
  proof (cases "int i < int (length (points stroke)) - 1")
    case False
    then have "\<not> isPointNearStroke_from pt stroke threshold i"
      by (subst isPointNearStroke_from.simps) simp
    moreover from False have "\<not> (\<exists>j. i \<le> j \<and> j + 1 < length (points stroke) \<and> ?near j)"
      by auto
    ultimately show ?thesis by blast
  next
    case inside: True
    show ?thesis
    proof (cases "?near i")
      case True
      with inside have "isPointNearStroke_from pt stroke threshold i"
        by (subst isPointNearStroke_from.simps) simp
      moreover from inside True have "\<exists>j. i \<le> j \<and> j + 1 < length (points stroke) \<and> ?near j"
        by (intro exI[of _ i]) auto
      ultimately show ?thesis by blast
    next
      case False
      with inside have step: "isPointNearStroke_from pt stroke threshold i
          = isPointNearStroke_from pt stroke threshold (i + 1)"
        by (subst isPointNearStroke_from.simps) simp
      have "(\<exists>j. i \<le> j \<and> j + 1 < length (points stroke) \<and> ?near j)
          \<longleftrightarrow> (\<exists>j. i + 1 \<le> j \<and> j + 1 < length (points stroke) \<and> ?near j)"
      proof
        assume "\<exists>j. i \<le> j \<and> j + 1 < length (points stroke) \<and> ?near j"
        then obtain j where j: "i \<le> j" "j + 1 < length (points stroke)" "?near j" by blast
        with False have "j \<noteq> i" by auto
        with j show "\<exists>j. i + 1 \<le> j \<and> j + 1 < length (points stroke) \<and> ?near j"
          by (intro exI[of _ j]) auto
      next
        assume "\<exists>j. i + 1 \<le> j \<and> j + 1 < length (points stroke) \<and> ?near j"
        then show "\<exists>j. i \<le> j \<and> j + 1 < length (points stroke) \<and> ?near j"
          by (auto intro: Suc_leD)
      qed
      with step "1.IH"[OF inside False] show ?thesis by simp
    qed
  qed
qed

lemma nearAnyStroke_iff:
  "nearAnyStroke pt ss \<longleftrightarrow> (\<exists>s \<in> set ss. isPointNearStroke pt s)"
  by (induction ss) auto

lemma findAnnotation_loop_find:
  "findAnnotation_loop pt anns = List.find (\<lambda>a. highlightContains pt (ann_highlight a)) anns"
proof (induction anns)
  case Nil
  show ?case by simp
next
  case (Cons ann rest)
  show ?case
  proof (cases "ann_highlight ann")
    case (Rect r)
    with Cons show ?thesis by simp
  next
    case (Brush b)
    with Cons show ?thesis by (simp add: nearAnyStroke_iff)
  qed
qed


lemma find_append_none:
  "\<forall>x \<in> set xs. \<not> P x \<Longrightarrow> List.find P (xs @ ys) = List.find P ys"
  by (induction xs) auto

text \<open>
  Claim C1. \<open>findAnnotationAtPoint\<close> goes through the annotations that are not
  completed, latest first, and returns the first whose highlight contains the point
  (rectangle containment, or the near-stroke test for some stroke of a brush highlight),
  else nothing. So a hit annotation that is followed only by completed or missed ones is the
  result, and of two open highlights that both contain the point the later one is returned.
\<close>

theorem C1_findAnnotationAtPoint_latest_hit:
  "findAnnotationAtPoint anns P
      = List.find (\<lambda>a. highlightContains P (ann_highlight a))
          (rev (filter (\<lambda>a. \<not> completed a) anns))
   \<and> (\<not> completed b \<and> highlightContains P (ann_highlight b) \<and>
        (\<forall>c \<in> set post. completed c \<or> \<not> highlightContains P (ann_highlight c))
        \<longrightarrow> findAnnotationAtPoint (pre @ b # post) P = Some b)
   \<and> (\<not> completed a \<and> \<not> completed b \<and>
        highlightContains P (ann_highlight a) \<and> highlightContains P (ann_highlight b)
        \<longrightarrow> findAnnotationAtPoint [a, b] P = Some b)"
proof (intro conjI impI)
  show eq: "findAnnotationAtPoint anns P
      = List.find (\<lambda>a. highlightContains P (ann_highlight a))
          (rev (filter (\<lambda>a. \<not> completed a) anns))" for anns
    by (simp add: findAnnotationAtPoint_def findAnnotation_loop_find)
  {
    fix pre post :: "annotation list"
    assume h: "\<not> completed b \<and> highlightContains P (ann_highlight b) \<and>
        (\<forall>c \<in> set post. completed c \<or> \<not> highlightContains P (ann_highlight c))"
    let ?hit = "\<lambda>a. highlightContains P (ann_highlight a)"
    let ?act = "\<lambda>a. \<not> completed a"
    from h have none: "\<forall>x \<in> set (rev (filter ?act post)). \<not> ?hit x" by auto
    from h have "rev (filter ?act (pre @ b # post))
        = rev (filter ?act post) @ (b # rev (filter ?act pre))" by simp
    then have "List.find ?hit (rev (filter ?act (pre @ b # post)))
        = List.find ?hit (b # rev (filter ?act pre))"
      using find_append_none[OF none] by simp
    with h have "findAnnotationAtPoint (pre @ b # post) P = Some b"
      by (simp add: eq)
  } note general = this
  show "findAnnotationAtPoint (pre @ b # post) P = Some b"
    if "\<not> completed b \<and> highlightContains P (ann_highlight b) \<and>
        (\<forall>c \<in> set post. completed c \<or> \<not> highlightContains P (ann_highlight c))"
    using general[OF that] .
  show "findAnnotationAtPoint [a, b] P = Some b"
    if "\<not> completed a \<and> \<not> completed b \<and>
        highlightContains P (ann_highlight a) \<and> highlightContains P (ann_highlight b)"
    using general[of "[]" "[a]"] that by simp
qed

theorem C1_witness:
  "findAnnotationAtPoint [sampleRectA, sampleRectB] \<lparr> p_x = 7, p_y = 7 \<rparr> = Some sampleRectB
   \<and> findAnnotationAtPoint [sampleRectA, sampleRectB] \<lparr> p_x = 2, p_y = 2 \<rparr> = Some sampleRectA
   \<and> findAnnotationAtPoint [sampleRectA, sampleRectB] \<lparr> p_x = 20, p_y = 2 \<rparr> = None"
  using C1_findAnnotationAtPoint_latest_hit[of "[sampleRectA, sampleRectB]" "\<lparr> p_x = 7, p_y = 7 \<rparr>" sampleRectB "[]" "[]" sampleRectA]
    C1_findAnnotationAtPoint_latest_hit[of "[sampleRectA, sampleRectB]" "\<lparr> p_x = 2, p_y = 2 \<rparr>" sampleRectB "[]" "[]" sampleRectA]
    C1_findAnnotationAtPoint_latest_hit[of "[sampleRectA, sampleRectB]" "\<lparr> p_x = 20, p_y = 2 \<rparr>" sampleRectB "[]" "[]" sampleRectA]
  by (simp add: sampleRectA_def sampleRectB_def isPointInRect_def)

section \<open>Distance to a stroke: proofs\<close>

lemma distance_degenerate:
  "p_x p1 = p_x p2 \<Longrightarrow> p_y p1 = p_y p2 \<Longrightarrow> distanceToLineSegment pt p1 p2 = euclid pt p1"
  by (simp add: distanceToLineSegment_def euclid_def)

lemma distance_attained:
  "\<exists>t. 0 \<le> t \<and> t \<le> 1 \<and> distanceToLineSegment pt p1 p2 = euclid pt (segmentPoint p1 p2 t)"
proof (cases "(p_x p2 - p_x p1) * (p_x p2 - p_x p1) + (p_y p2 - p_y p1) * (p_y p2 - p_y p1) = 0")
  case True
  then have "distanceToLineSegment pt p1 p2 = euclid pt (segmentPoint p1 p2 0)"
    by (simp add: distanceToLineSegment_def euclid_def segmentPoint_def Let_def)
  then show ?thesis by (intro exI[of _ 0]) simp
next
  case False
  define t where "t = max 0 (min 1 (((p_x pt - p_x p1) * (p_x p2 - p_x p1) + (p_y pt - p_y p1) * (p_y p2 - p_y p1))
      / ((p_x p2 - p_x p1) * (p_x p2 - p_x p1) + (p_y p2 - p_y p1) * (p_y p2 - p_y p1))))"
  have "0 \<le> t" "t \<le> 1" by (simp_all add: t_def)
  moreover from False have "distanceToLineSegment pt p1 p2 = euclid pt (segmentPoint p1 p2 t)"
    by (simp add: distanceToLineSegment_def euclid_def segmentPoint_def Let_def t_def)
  ultimately show ?thesis by blast
qed

lemma quadratic_clamp_min:
  fixes L t0 t c :: real
  assumes L: "0 < L" and t: "0 \<le> t" "t \<le> 1"
  shows "c - 2 * (max 0 (min 1 t0)) * (t0 * L) + (max 0 (min 1 t0))\<^sup>2 * L
      \<le> c - 2 * t * (t0 * L) + t\<^sup>2 * L"
proof -
  define tc where "tc = max 0 (min 1 t0)"
  have "(t - tc) * (t + tc - 2 * t0) \<ge> 0"
  proof -
    consider "t0 < 0" | "0 \<le> t0 \<and> t0 \<le> 1" | "1 < t0" by linarith
    then show ?thesis
    proof cases
      case 1
      then have "tc = 0" by (simp add: tc_def)
      with 1 t show ?thesis by (simp add: mult_nonneg_nonneg)
    next
      case 2
      then have "tc = t0" by (simp add: tc_def)
      then have "(t - tc) * (t + tc - 2 * t0) = (t - t0)\<^sup>2" by (simp add: power2_eq_square algebra_simps)
      then show ?thesis by simp
    next
      case 3
      then have "tc = 1" by (simp add: tc_def)
      with 3 t have "t - tc \<le> 0" "t + tc - 2 * t0 \<le> 0" by simp_all
      then show ?thesis by (rule mult_nonpos_nonpos)
    qed
  qed
  with L have "0 \<le> L * ((t - tc) * (t + tc - 2 * t0))" by (simp add: mult_nonneg_nonneg)
  also have "L * ((t - tc) * (t + tc - 2 * t0))
      = (c - 2 * t * (t0 * L) + t\<^sup>2 * L) - (c - 2 * tc * (t0 * L) + tc\<^sup>2 * L)"
    by (simp add: power2_eq_square algebra_simps)
  finally show ?thesis by (simp add: tc_def)
qed

lemma distance_minimal:
  assumes t: "0 \<le> t" "t \<le> 1"
  shows "distanceToLineSegment pt p1 p2 \<le> euclid pt (segmentPoint p1 p2 t)"
proof -
  define dx where "dx = p_x p2 - p_x p1"
  define dy where "dy = p_y p2 - p_y p1"
  define vx where "vx = p_x pt - p_x p1"
  define vy where "vy = p_y pt - p_y p1"
  define L where "L = dx * dx + dy * dy"
  show ?thesis
  proof (cases "L = 0")
    case True
    then have "dx = 0" "dy = 0" by (simp_all add: L_def sum_squares_eq_zero_iff)
    then show ?thesis
      by (simp add: distanceToLineSegment_def euclid_def segmentPoint_def Let_def dx_def dy_def)
  next
    case False
    have "0 \<le> L" by (simp add: L_def)
    with False have Lpos: "0 < L" by simp
    define t0 where "t0 = (vx * dx + vy * dy) / L"
    define tc where "tc = max 0 (min 1 t0)"
    have dot: "vx * dx + vy * dy = t0 * L" using False by (simp add: t0_def)
    have expand: "(vx - s * dx)\<^sup>2 + (vy - s * dy)\<^sup>2
        = (vx\<^sup>2 + vy\<^sup>2) - 2 * s * (t0 * L) + s\<^sup>2 * L" for s
    proof -
      have "(vx - s * dx)\<^sup>2 + (vy - s * dy)\<^sup>2
          = (vx\<^sup>2 + vy\<^sup>2) - 2 * s * (vx * dx + vy * dy) + s\<^sup>2 * (dx * dx + dy * dy)"
        by (simp add: power2_eq_square algebra_simps)
      then show ?thesis by (simp only: dot L_def)
    qed
    have "(vx - tc * dx)\<^sup>2 + (vy - tc * dy)\<^sup>2 \<le> (vx - t * dx)\<^sup>2 + (vy - t * dy)\<^sup>2"
      unfolding expand tc_def by (rule quadratic_clamp_min[OF Lpos t])
    then have "sqrt ((vx - tc * dx)\<^sup>2 + (vy - tc * dy)\<^sup>2) \<le> sqrt ((vx - t * dx)\<^sup>2 + (vy - t * dy)\<^sup>2)"
      by simp
    moreover have "distanceToLineSegment pt p1 p2 = sqrt ((vx - tc * dx)\<^sup>2 + (vy - tc * dy)\<^sup>2)"
      using False
      by (simp add: distanceToLineSegment_def Let_def L_def dx_def dy_def vx_def vy_def tc_def t0_def algebra_simps)
    moreover have "euclid pt (segmentPoint p1 p2 t) = sqrt ((vx - t * dx)\<^sup>2 + (vy - t * dy)\<^sup>2)"
      by (simp add: euclid_def segmentPoint_def dx_def dy_def vx_def vy_def algebra_simps)
    ultimately show ?thesis by simp
  qed
qed

lemma distance_projectionClamp:
  "distanceToLineSegment pt a b = projectionClampDistance pt a b"
proof (cases "a = b")
  case True
  then show ?thesis by (simp add: projectionClampDistance_def distance_degenerate)
next
  case False
  then have "p_x b - p_x a \<noteq> 0 \<or> p_y b - p_y a \<noteq> 0" by (cases a, cases b) auto
  then have "(p_x b - p_x a) * (p_x b - p_x a) + (p_y b - p_y a) * (p_y b - p_y a) \<noteq> 0"
    by (simp add: sum_squares_eq_zero_iff)
  then have "distanceToLineSegment pt a b
      = euclid pt (segmentPoint a b
             (max 0 (min 1 (((p_x pt - p_x a) * (p_x b - p_x a) + (p_y pt - p_y a) * (p_y b - p_y a))
                / ((p_x b - p_x a)\<^sup>2 + (p_y b - p_y a)\<^sup>2)))))"
    by (simp add: distanceToLineSegment_def euclid_def segmentPoint_def Let_def power2_eq_square)
  also have "\<dots> = projectionClampDistance pt a b"
    unfolding projectionClampDistance_def using False by (simp only: if_False)
  finally show ?thesis .
qed

text \<open>
  Claim C7. \<open>isPointNearStroke\<close> holds exactly when some segment between consecutive
  points of the stroke lies within \<open>brushSize / 2 + 5\<close> of the point. The distance to a
  segment is the projection-and-clamp distance: the Euclidean distance to the single point
  when the end points coincide, attained at a point of the segment, and no larger than the
  distance to any point of the segment.
\<close>

theorem C7_isPointNearStroke_iff_near_segment:
  "(isPointNearStroke P S \<longleftrightarrow>
      (\<exists>i. i + 1 < length (points S) \<and>
           distanceToLineSegment P (points S ! i) (points S ! (i + 1)) \<le> brushSize S / 2 + 5))
   \<and> distanceToLineSegment P A B = projectionClampDistance P A B
   \<and> distanceToLineSegment P A A = euclid P A
   \<and> (\<exists>t. 0 \<le> t \<and> t \<le> 1 \<and> distanceToLineSegment P A B = euclid P (segmentPoint A B t))
   \<and> (\<forall>t. 0 \<le> t \<and> t \<le> 1 \<longrightarrow> distanceToLineSegment P A B \<le> euclid P (segmentPoint A B t))"
proof (intro conjI allI impI)
  show "isPointNearStroke P S \<longleftrightarrow>
      (\<exists>i. i + 1 < length (points S) \<and>
           distanceToLineSegment P (points S ! i) (points S ! (i + 1)) \<le> brushSize S / 2 + 5)"
    by (simp add: isPointNearStroke_def isPointNearStroke_from_iff)
  show "distanceToLineSegment P A B = projectionClampDistance P A B"
    by (rule distance_projectionClamp)
  show "distanceToLineSegment P A A = euclid P A"
    by (rule distance_degenerate) (rule refl)+
  show "\<exists>t. 0 \<le> t \<and> t \<le> 1 \<and> distanceToLineSegment P A B = euclid P (segmentPoint A B t)"
    by (rule distance_attained)
  show "distanceToLineSegment P A B \<le> euclid P (segmentPoint A B t)" if "0 \<le> t \<and> t \<le> 1" for t
    using that by (intro distance_minimal) simp_all
qed

lemma sample_distances:
  "distanceToLineSegment \<lparr> p_x = 5, p_y = 15 \<rparr> \<lparr> p_x = 0, p_y = 0 \<rparr> \<lparr> p_x = 10, p_y = 0 \<rparr> = 15"
  "distanceToLineSegment \<lparr> p_x = 5, p_y = -16 \<rparr> \<lparr> p_x = 0, p_y = 0 \<rparr> \<lparr> p_x = 10, p_y = 0 \<rparr> = 16"
  "distanceToLineSegment \<lparr> p_x = 5, p_y = -16 \<rparr> \<lparr> p_x = 10, p_y = 0 \<rparr> \<lparr> p_x = 10, p_y = 10 \<rparr> = sqrt 281"
proof -
  have "sqrt 225 = (15::real)" "sqrt 256 = (16::real)"
    by (rule real_sqrt_unique; simp)+
  then show
    "distanceToLineSegment \<lparr> p_x = 5, p_y = 15 \<rparr> \<lparr> p_x = 0, p_y = 0 \<rparr> \<lparr> p_x = 10, p_y = 0 \<rparr> = 15"
    "distanceToLineSegment \<lparr> p_x = 5, p_y = -16 \<rparr> \<lparr> p_x = 0, p_y = 0 \<rparr> \<lparr> p_x = 10, p_y = 0 \<rparr> = 16"
    "distanceToLineSegment \<lparr> p_x = 5, p_y = -16 \<rparr> \<lparr> p_x = 10, p_y = 0 \<rparr> \<lparr> p_x = 10, p_y = 10 \<rparr> = sqrt 281"
    by (simp_all add: distanceToLineSegment_def Let_def)
qed

theorem C7_witness:
  "isPointNearStroke \<lparr> p_x = 5, p_y = 15 \<rparr> sampleStroke
   \<and> \<not> isPointNearStroke \<lparr> p_x = 5, p_y = -16 \<rparr> sampleStroke
   \<and> distanceToLineSegment \<lparr> p_x = 5, p_y = 15 \<rparr> \<lparr> p_x = 0, p_y = 0 \<rparr> \<lparr> p_x = 10, p_y = 0 \<rparr>
        \<le> euclid \<lparr> p_x = 5, p_y = 15 \<rparr> (segmentPoint \<lparr> p_x = 0, p_y = 0 \<rparr> \<lparr> p_x = 10, p_y = 0 \<rparr> (1/2))"
proof -
  let ?near = "\<lambda>P. \<exists>i. i + 1 < length (points sampleStroke) \<and>
      distanceToLineSegment P (points sampleStroke ! i) (points sampleStroke ! (i + 1))
        \<le> brushSize sampleStroke / 2 + 5"
  let ?A = "\<lparr> p_x = 0, p_y = 0 \<rparr>" and ?B = "\<lparr> p_x = 10, p_y = 0 \<rparr>" and ?C = "\<lparr> p_x = 10, p_y = 10 \<rparr>"
  have len: "length (points sampleStroke) = 3"
    and th: "brushSize sampleStroke / 2 + 5 = 15"
    and p0: "points sampleStroke ! 0 = ?A"
    and p1: "points sampleStroke ! 1 = ?B" "points sampleStroke ! Suc 0 = ?B"
    and p2: "points sampleStroke ! 2 = ?C" "points sampleStroke ! Suc (Suc 0) = ?C"
    by (simp_all add: sampleStroke_def)
  have "0 + 1 < length (points sampleStroke) \<and>
      distanceToLineSegment \<lparr> p_x = 5, p_y = 15 \<rparr> (points sampleStroke ! 0) (points sampleStroke ! (0 + 1))
        \<le> brushSize sampleStroke / 2 + 5"
    by (simp add: len th p0 p1 sample_distances)
  then have pos: "?near \<lparr> p_x = 5, p_y = 15 \<rparr>" by (rule exI)
  have neg: "\<not> ?near \<lparr> p_x = 5, p_y = -16 \<rparr>"
  proof
    assume "?near \<lparr> p_x = 5, p_y = -16 \<rparr>"
    then obtain i where i: "i + 1 < length (points sampleStroke)"
      and d: "distanceToLineSegment \<lparr> p_x = 5, p_y = -16 \<rparr> (points sampleStroke ! i)
                (points sampleStroke ! (i + 1)) \<le> brushSize sampleStroke / 2 + 5"
      by blast
    from i len have "i = 0 \<or> i = 1" by linarith
    then show False
    proof
      assume "i = 0"
      with d show False by (simp add: th p0 p1 sample_distances)
    next
      assume "i = 1"
      moreover have "(15::real) < sqrt 281" by (rule real_less_rsqrt) simp
      ultimately show False using d by (simp add: th p1 p2 sample_distances)
    qed
  qed
  have iff1: "isPointNearStroke \<lparr> p_x = 5, p_y = 15 \<rparr> sampleStroke \<longleftrightarrow> ?near \<lparr> p_x = 5, p_y = 15 \<rparr>"
    using C7_isPointNearStroke_iff_near_segment[of "\<lparr> p_x = 5, p_y = 15 \<rparr>" sampleStroke ?A ?B]
    by (elim conjE)
  have iff2: "isPointNearStroke \<lparr> p_x = 5, p_y = -16 \<rparr> sampleStroke \<longleftrightarrow> ?near \<lparr> p_x = 5, p_y = -16 \<rparr>"
    using C7_isPointNearStroke_iff_near_segment[of "\<lparr> p_x = 5, p_y = -16 \<rparr>" sampleStroke ?A ?B]
    by (elim conjE)
  have "\<forall>t. 0 \<le> t \<and> t \<le> 1 \<longrightarrow> distanceToLineSegment \<lparr> p_x = 5, p_y = 15 \<rparr> ?A ?B
      \<le> euclid \<lparr> p_x = 5, p_y = 15 \<rparr> (segmentPoint ?A ?B t)"
    using C7_isPointNearStroke_iff_near_segment[of "\<lparr> p_x = 5, p_y = 15 \<rparr>" sampleStroke ?A ?B]
    by (elim conjE)
  then have "distanceToLineSegment \<lparr> p_x = 5, p_y = 15 \<rparr> ?A ?B
      \<le> euclid \<lparr> p_x = 5, p_y = 15 \<rparr> (segmentPoint ?A ?B (1/2))"
    by simp
  with pos neg iff1 iff2 show ?thesis by simp
qed

section \<open>Annotation store: proofs\<close>

text \<open>
  Claim C8. \<open>handleMarkComplete\<close> keeps the length and the order of the list, sets
  \<open>completed\<close> on the annotations with the given id and changes no other field and no
  other annotation; a second application changes nothing, and neither does an id that no
  annotation has.
\<close>

theorem C8_handleMarkComplete_frame:
  "length (handleMarkComplete ident L) = length L
   \<and> (\<forall>i < length L. handleMarkComplete ident L ! i
          = (if ann_id (L ! i) = ident then (L ! i)\<lparr>completed := True\<rparr> else L ! i))
   \<and> map ann_id (handleMarkComplete ident L) = map ann_id L
   \<and> map ann_text (handleMarkComplete ident L) = map ann_text L
   \<and> map ann_highlight (handleMarkComplete ident L) = map ann_highlight L
   \<and> map ann_color (handleMarkComplete ident L) = map ann_color L
   \<and> map ann_timestamp (handleMarkComplete ident L) = map ann_timestamp L
   \<and> map replies (handleMarkComplete ident L) = map replies L
   \<and> map completed (handleMarkComplete ident L) = map (\<lambda>a. completed a \<or> ann_id a = ident) L
   \<and> handleMarkComplete ident (handleMarkComplete ident L) = handleMarkComplete ident L
   \<and> (ident \<notin> ann_id ` set L \<longrightarrow> handleMarkComplete ident L = L)"
proof -
  have len: "length (handleMarkComplete ident L) = length L"
    by (simp add: handleMarkComplete_def)
  have nth: "\<forall>i < length L. handleMarkComplete ident L ! i
          = (if ann_id (L ! i) = ident then (L ! i)\<lparr>completed := True\<rparr> else L ! i)"
    by (simp add: handleMarkComplete_def)
  have fields: "map ann_id (handleMarkComplete ident L) = map ann_id L"
    "map ann_text (handleMarkComplete ident L) = map ann_text L"
    "map ann_highlight (handleMarkComplete ident L) = map ann_highlight L"
    "map ann_color (handleMarkComplete ident L) = map ann_color L"
    "map ann_timestamp (handleMarkComplete ident L) = map ann_timestamp L"
    "map replies (handleMarkComplete ident L) = map replies L"
    by (simp_all add: handleMarkComplete_def)
  have flag: "map completed (handleMarkComplete ident L) = map (\<lambda>a. completed a \<or> ann_id a = ident) L"
    by (auto simp add: handleMarkComplete_def)
  have idem: "handleMarkComplete ident (handleMarkComplete ident L) = handleMarkComplete ident L"
    by (simp add: handleMarkComplete_def)
  have absent: "ident \<notin> ann_id ` set L \<longrightarrow> handleMarkComplete ident L = L"
    unfolding handleMarkComplete_def by (intro impI map_idI) auto
  from len nth fields flag idem absent show ?thesis by blast
qed

theorem C8_witness:
  "handleMarkComplete ''2'' [sampleRectA, sampleRectB] = [sampleRectA, sampleRectB\<lparr>completed := True\<rparr>]
   \<and> handleMarkComplete ''3'' [sampleRectA, sampleRectB] = [sampleRectA, sampleRectB]
   \<and> handleMarkComplete ''2'' [sampleRectA, sampleRectB] ! 1 = sampleRectB\<lparr>completed := True\<rparr>"
  using C8_handleMarkComplete_frame[of "''2''" "[sampleRectA, sampleRectB]"]
    C8_handleMarkComplete_frame[of "''3''" "[sampleRectA, sampleRectB]"]
  by (simp add: handleMarkComplete_def sampleRectA_def sampleRectB_def)

section \<open>Viewport transform: proofs\<close>

lemma getBounds_order:
  "minX (getBounds d s) \<le> 0 \<and> 0 \<le> maxX (getBounds d s) \<and>
   minY (getBounds d s) \<le> 0 \<and> 0 \<le> maxY (getBounds d s)"
  by (simp add: getBounds_def Let_def split: option.splits)

lemma getBounds_le:
  "minX (getBounds d s) \<le> maxX (getBounds d s)" "minY (getBounds d s) \<le> maxY (getBounds d s)"
  using getBounds_order[of d s] by simp_all

lemma sequential_clamp:
  fixes lo hi v :: real
  shows "lo \<le> hi \<Longrightarrow>
    (if hi < (if v < lo then lo else v) then hi else (if v < lo then lo else v)) = clampTo lo hi v"
  by (auto simp: clampTo_def)

text \<open>
  Claim C3. The settle step clamps the scale to \<open>[1, 3]\<close>; at settled scale 1 the pan
  becomes \<open>(0, 0)\<close>, otherwise each pan coordinate is clamped into the bounds computed
  at the settled scale. The settled pan always lies within those bounds.
\<close>

theorem C3_settle_clamps_scale_and_pan:
  "onWheel_settle d prev =
     \<lparr> t_x = (if clampTo 1 3 (t_scale prev) = 1 then 0
              else clampTo (minX (getBounds d (clampTo 1 3 (t_scale prev))))
                     (maxX (getBounds d (clampTo 1 3 (t_scale prev)))) (t_x prev)),
       t_y = (if clampTo 1 3 (t_scale prev) = 1 then 0
              else clampTo (minY (getBounds d (clampTo 1 3 (t_scale prev))))
                     (maxY (getBounds d (clampTo 1 3 (t_scale prev)))) (t_y prev)),
       t_scale = clampTo 1 3 (t_scale prev) \<rparr>
   \<and> 1 \<le> t_scale (onWheel_settle d prev) \<and> t_scale (onWheel_settle d prev) \<le> 3
   \<and> minX (getBounds d (t_scale (onWheel_settle d prev))) \<le> t_x (onWheel_settle d prev)
   \<and> t_x (onWheel_settle d prev) \<le> maxX (getBounds d (t_scale (onWheel_settle d prev)))
   \<and> minY (getBounds d (t_scale (onWheel_settle d prev))) \<le> t_y (onWheel_settle d prev)
   \<and> t_y (onWheel_settle d prev) \<le> maxY (getBounds d (t_scale (onWheel_settle d prev)))
   \<and> (t_scale (onWheel_settle d prev) = 1 \<longrightarrow>
        t_x (onWheel_settle d prev) = 0 \<and> t_y (onWheel_settle d prev) = 0)"
proof -
  define s where "s = clampTo 1 3 (t_scale prev)"
  define b where "b = getBounds d s"
  have ord: "minX b \<le> 0" "0 \<le> maxX b" "minY b \<le> 0" "0 \<le> maxY b"
    using getBounds_order[of d s] by (simp_all add: b_def)
  have "(1::real) \<le> 3" by simp
  note scale = sequential_clamp[OF this, of "t_scale prev"]
  have "onWheel_settle d prev =
     (if s = 1 then \<lparr> t_x = 0, t_y = 0, t_scale = s \<rparr>
      else \<lparr> t_x = clampTo (minX b) (maxX b) (t_x prev),
             t_y = clampTo (minY b) (maxY b) (t_y prev), t_scale = s \<rparr>)"
    unfolding onWheel_settle_def Let_def b_def s_def
    by (simp only: scale sequential_clamp getBounds_le)
  then have eq: "onWheel_settle d prev =
     \<lparr> t_x = (if s = 1 then 0 else clampTo (minX b) (maxX b) (t_x prev)),
       t_y = (if s = 1 then 0 else clampTo (minY b) (maxY b) (t_y prev)),
       t_scale = s \<rparr>"
    by simp
  have range: "1 \<le> s" "s \<le> 3" by (simp_all add: s_def clampTo_def)
  have inb: "minX b \<le> clampTo (minX b) (maxX b) v" "clampTo (minX b) (maxX b) v \<le> maxX b"
    "minY b \<le> clampTo (minY b) (maxY b) v" "clampTo (minY b) (maxY b) v \<le> maxY b" for v
    using ord by (simp_all add: clampTo_def)
  show ?thesis
    unfolding s_def[symmetric] b_def[symmetric] eq
    using range ord inb by (simp add: b_def[symmetric])
qed

lemma sampleDom_bounds:
  "getBounds sampleDom 1 = \<lparr> minX = 0, maxX = 0, minY = 0, maxY = 0 \<rparr>"
  "getBounds sampleDom 2 = \<lparr> minX = -400, maxX = 400, minY = -300, maxY = 300 \<rparr>"
  "getBounds sampleDom 3 = \<lparr> minX = -800, maxX = 800, minY = -600, maxY = 600 \<rparr>"
  by (simp_all add: getBounds_def sampleDom_def Let_def)

theorem C3_witness:
  "onWheel_settle sampleDom \<lparr> t_x = 120, t_y = -45, t_scale = 0.7 \<rparr>
      = \<lparr> t_x = 0, t_y = 0, t_scale = 1 \<rparr>
   \<and> onWheel_settle sampleDom \<lparr> t_x = 950, t_y = -45, t_scale = 4.2 \<rparr>
      = \<lparr> t_x = 800, t_y = -45, t_scale = 3 \<rparr>
   \<and> onWheel_settle sampleDom \<lparr> t_x = -500, t_y = 310, t_scale = 2 \<rparr>
      = \<lparr> t_x = -400, t_y = 300, t_scale = 2 \<rparr>"
  using C3_settle_clamps_scale_and_pan[of sampleDom "\<lparr> t_x = 120, t_y = -45, t_scale = 0.7 \<rparr>"]
    C3_settle_clamps_scale_and_pan[of sampleDom "\<lparr> t_x = 950, t_y = -45, t_scale = 4.2 \<rparr>"]
    C3_settle_clamps_scale_and_pan[of sampleDom "\<lparr> t_x = -500, t_y = 310, t_scale = 2 \<rparr>"]
  by (simp add: clampTo_def sampleDom_bounds)

lemma pan_axis:
  fixes lo hi v d0 :: real
  assumes "lo \<le> hi"
  shows "(let ov0 = 0;
              ov1 = (if v > hi then v - hi else ov0);
              ov = (if v < lo then lo - v else ov1);
              r = max 0 (1 - ov / MAX_OVERSHOOT);
              d1 = (if v > hi \<and> d0 > 0 then d0 * r else d0);
              dd = (if v < lo \<and> d1 < 0 then d1 * r else d1)
          in dd)
       = (if pushesOutward lo hi v d0 then d0 * max 0 (1 - overshoot lo hi v / 200) else d0)"
proof -
  consider "v > hi" | "v < lo" | "lo \<le> v \<and> v \<le> hi" by linarith
  then show ?thesis
  proof cases
    case 1
    with assms have nlo: "\<not> v < lo" by simp
    have "0 \<le> max 0 (1 - (v - hi) / 200)" by simp
    then have "d0 > 0 \<Longrightarrow> \<not> d0 * max 0 (1 - (v - hi) / 200) < 0"
      by (simp add: mult_nonneg_nonneg not_less)
    with 1 nlo show ?thesis
      by (simp add: Let_def pushesOutward_def overshoot_def MAX_OVERSHOOT_def)
  next
    case 2
    with assms have "\<not> v > hi" by simp
    with 2 show ?thesis
      by (simp add: Let_def pushesOutward_def overshoot_def MAX_OVERSHOOT_def)
  next
    case 3
    then show ?thesis
      by (simp add: Let_def pushesOutward_def overshoot_def MAX_OVERSHOOT_def)
  qed
qed


lemmas pan_axis_unfolded = pan_axis[unfolded Let_def]

text \<open>
  Claim C4. In a pan step each axis moves by the negated wheel delta, multiplied by
  \<open>max 0 (1 - overshoot / 200)\<close> exactly when the pan is already past a bound and the
  delta pushes further out. At an overshoot of 200 an outward delta moves nothing; a pan
  within its bounds, and a delta that does not push outward, are applied in full.
\<close>

theorem C4_pan_elastic_resistance:
  "t_x (onWheel_pan d e prev) = t_x prev +
      (if pushesOutward (minX (getBounds d (t_scale prev))) (maxX (getBounds d (t_scale prev)))
            (t_x prev) (- deltaX e)
       then - deltaX e * max 0 (1 - overshoot (minX (getBounds d (t_scale prev)))
                                     (maxX (getBounds d (t_scale prev))) (t_x prev) / 200)
       else - deltaX e)
   \<and> t_y (onWheel_pan d e prev) = t_y prev +
      (if pushesOutward (minY (getBounds d (t_scale prev))) (maxY (getBounds d (t_scale prev)))
            (t_y prev) (- deltaY e)
       then - deltaY e * max 0 (1 - overshoot (minY (getBounds d (t_scale prev)))
                                     (maxY (getBounds d (t_scale prev))) (t_y prev) / 200)
       else - deltaY e)
   \<and> t_scale (onWheel_pan d e prev) = t_scale prev
   \<and> (pushesOutward (minX (getBounds d (t_scale prev))) (maxX (getBounds d (t_scale prev)))
          (t_x prev) (- deltaX e) \<and>
        overshoot (minX (getBounds d (t_scale prev))) (maxX (getBounds d (t_scale prev))) (t_x prev) = 200
        \<longrightarrow> t_x (onWheel_pan d e prev) = t_x prev)
   \<and> (pushesOutward (minY (getBounds d (t_scale prev))) (maxY (getBounds d (t_scale prev)))
          (t_y prev) (- deltaY e) \<and>
        overshoot (minY (getBounds d (t_scale prev))) (maxY (getBounds d (t_scale prev))) (t_y prev) = 200
        \<longrightarrow> t_y (onWheel_pan d e prev) = t_y prev)
   \<and> (minX (getBounds d (t_scale prev)) \<le> t_x prev \<and> t_x prev \<le> maxX (getBounds d (t_scale prev))
        \<longrightarrow> t_x (onWheel_pan d e prev) = t_x prev - deltaX e)
   \<and> (minY (getBounds d (t_scale prev)) \<le> t_y prev \<and> t_y prev \<le> maxY (getBounds d (t_scale prev))
        \<longrightarrow> t_y (onWheel_pan d e prev) = t_y prev - deltaY e)
   \<and> (\<not> pushesOutward (minX (getBounds d (t_scale prev))) (maxX (getBounds d (t_scale prev)))
          (t_x prev) (- deltaX e)
        \<longrightarrow> t_x (onWheel_pan d e prev) = t_x prev - deltaX e)
   \<and> (\<not> pushesOutward (minY (getBounds d (t_scale prev))) (maxY (getBounds d (t_scale prev)))
          (t_y prev) (- deltaY e)
        \<longrightarrow> t_y (onWheel_pan d e prev) = t_y prev - deltaY e)"
proof -
  define b where "b = getBounds d (t_scale prev)"
  have le: "minX b \<le> maxX b" "minY b \<le> maxY b"
    by (simp_all add: b_def getBounds_le)
  have x: "t_x (onWheel_pan d e prev) = t_x prev +
      (if pushesOutward (minX b) (maxX b) (t_x prev) (- deltaX e)
       then - deltaX e * max 0 (1 - overshoot (minX b) (maxX b) (t_x prev) / 200)
       else - deltaX e)"
    unfolding onWheel_pan_def Let_def b_def[symmetric]
    by (simp only: pan_axis_unfolded[OF le(1)]) simp
  have y: "t_y (onWheel_pan d e prev) = t_y prev +
      (if pushesOutward (minY b) (maxY b) (t_y prev) (- deltaY e)
       then - deltaY e * max 0 (1 - overshoot (minY b) (maxY b) (t_y prev) / 200)
       else - deltaY e)"
    unfolding onWheel_pan_def Let_def b_def[symmetric]
    by (simp only: pan_axis_unfolded[OF le(2)]) simp
  have sc: "t_scale (onWheel_pan d e prev) = t_scale prev"
    by (simp add: onWheel_pan_def Let_def)
  have inside: "lo \<le> v \<and> v \<le> hi \<Longrightarrow> \<not> pushesOutward lo hi v dl" for lo hi v dl :: real
    by (auto simp: pushesOutward_def)
  show ?thesis
    unfolding b_def[symmetric] x y sc
    using inside[of "minX b" "t_x prev" "maxX b" "- deltaX e"]
      inside[of "minY b" "t_y prev" "maxY b" "- deltaY e"]
    by auto
qed

theorem C4_witness:
  "t_x (onWheel_pan sampleDom \<lparr> deltaX = -50, deltaY = 0, ctrlKey = False, metaKey = False \<rparr>
          \<lparr> t_x = 200, t_y = 0, t_scale = 1 \<rparr>) = 200
   \<and> t_x (onWheel_pan sampleDom \<lparr> deltaX = 50, deltaY = 0, ctrlKey = False, metaKey = False \<rparr>
          \<lparr> t_x = 200, t_y = 0, t_scale = 1 \<rparr>) = 150
   \<and> t_x (onWheel_pan sampleDom \<lparr> deltaX = -50, deltaY = 0, ctrlKey = False, metaKey = False \<rparr>
          \<lparr> t_x = 100, t_y = 0, t_scale = 1 \<rparr>) = 125
   \<and> t_x (onWheel_pan sampleDom \<lparr> deltaX = -50, deltaY = 30, ctrlKey = False, metaKey = False \<rparr>
          \<lparr> t_x = 100, t_y = 0, t_scale = 2 \<rparr>) = 150
   \<and> t_y (onWheel_pan sampleDom \<lparr> deltaX = -50, deltaY = 30, ctrlKey = False, metaKey = False \<rparr>
          \<lparr> t_x = 100, t_y = 0, t_scale = 2 \<rparr>) = -30"
  using C4_pan_elastic_resistance[of sampleDom "\<lparr> deltaX = -50, deltaY = 0, ctrlKey = False, metaKey = False \<rparr>"
        "\<lparr> t_x = 200, t_y = 0, t_scale = 1 \<rparr>"]
    C4_pan_elastic_resistance[of sampleDom "\<lparr> deltaX = 50, deltaY = 0, ctrlKey = False, metaKey = False \<rparr>"
        "\<lparr> t_x = 200, t_y = 0, t_scale = 1 \<rparr>"]
    C4_pan_elastic_resistance[of sampleDom "\<lparr> deltaX = -50, deltaY = 0, ctrlKey = False, metaKey = False \<rparr>"
        "\<lparr> t_x = 100, t_y = 0, t_scale = 1 \<rparr>"]
    C4_pan_elastic_resistance[of sampleDom "\<lparr> deltaX = -50, deltaY = 30, ctrlKey = False, metaKey = False \<rparr>"
        "\<lparr> t_x = 100, t_y = 0, t_scale = 2 \<rparr>"]
  by (simp add: sampleDom_bounds pushesOutward_def overshoot_def)


section \<open>Drawing gestures: proofs\<close>

lemma mouseUp_degenerate:
  assumes "isDrawing st"
    and "(activeTool st = SelectTool \<and> dragStart st = Some ds \<and> dragEnd st = Some de \<and>
          (\<bar>p_x de - p_x ds\<bar> \<le> 10 \<or> \<bar>p_y de - p_y ds\<bar> \<le> 10))
         \<or> (activeTool st = BrushTool \<and> length (brushPoints st) \<le> 2)"
  shows "handleWindowMouseUp d e st
      = st\<lparr>isDrawing := False, dragStart := None, dragEnd := None, brushPoints := []\<rparr>"
  using assms(2)
proof
  assume a: "activeTool st = SelectTool \<and> dragStart st = Some ds \<and> dragEnd st = Some de \<and>
          (\<bar>p_x de - p_x ds\<bar> \<le> 10 \<or> \<bar>p_y de - p_y ds\<bar> \<le> 10)"
  then have sel: "activeTool st = SelectTool" "dragStart st = Some ds" "dragEnd st = Some de"
    by simp_all
  from a have small: "(\<bar>p_x de - p_x ds\<bar> > 10 \<and> \<bar>p_y de - p_y ds\<bar> > 10) = False"
    by auto
  show ?thesis
    by (simp add: handleWindowMouseUp_def Let_def assms(1) sel small)
next
  assume "activeTool st = BrushTool \<and> length (brushPoints st) \<le> 2"
  then have br: "activeTool st = BrushTool" and few: "(2 < length (brushPoints st)) = False"
    by auto
  show ?thesis
    by (simp add: handleWindowMouseUp_def Let_def assms(1) br few)
qed

lemma mouseUp_clears:
  "isDrawing st \<Longrightarrow>
     \<not> isDrawing (handleWindowMouseUp d e st) \<and> dragStart (handleWindowMouseUp d e st) = None \<and>
     dragEnd (handleWindowMouseUp d e st) = None \<and> brushPoints (handleWindowMouseUp d e st) = []"
  by (cases "activeTool st"; cases "dragStart st"; cases "dragEnd st")
     (simp_all add: handleWindowMouseUp_def Let_def)

lemma save_nothing_staged:
  "pendingHighlight st = None \<Longrightarrow> pendingStrokes st = [] \<Longrightarrow> handleSaveAnnotation n1 n2 st = st"
  by (simp add: handleSaveAnnotation_def split: option.splits)

text \<open>
  Claim C5. When a drag ends with a rectangle whose width or height is at most 10, or with
  a brush gesture of at most 2 points, \<open>handleWindowMouseUp\<close> only clears the drag state:
  no highlight and no stroke is staged, the note popover is not opened, and a Save that
  follows with nothing staged before commits nothing. Every gesture ends with the drag
  state cleared. The handler has no failing branch.
\<close>

theorem C5_degenerate_gesture_stages_nothing:
  "(isDrawing st \<and>
      ((activeTool st = SelectTool \<and> dragStart st = Some ds \<and> dragEnd st = Some de \<and>
          (\<bar>p_x de - p_x ds\<bar> \<le> 10 \<or> \<bar>p_y de - p_y ds\<bar> \<le> 10))
       \<or> (activeTool st = BrushTool \<and> length (brushPoints st) \<le> 2))
    \<longrightarrow> handleWindowMouseUp d e st
          = st\<lparr>isDrawing := False, dragStart := None, dragEnd := None, brushPoints := []\<rparr>
      \<and> pendingHighlight (handleWindowMouseUp d e st) = pendingHighlight st
      \<and> pendingStrokes (handleWindowMouseUp d e st) = pendingStrokes st
      \<and> showInput (handleWindowMouseUp d e st) = showInput st
      \<and> annotations (handleWindowMouseUp d e st) = annotations st
      \<and> (pendingHighlight st = None \<and> pendingStrokes st = []
           \<longrightarrow> annotations (handleSaveAnnotation n1 n2 (handleWindowMouseUp d e st)) = annotations st))
   \<and> (isDrawing st
    \<longrightarrow> \<not> isDrawing (handleWindowMouseUp d e st) \<and> dragStart (handleWindowMouseUp d e st) = None
      \<and> dragEnd (handleWindowMouseUp d e st) = None \<and> brushPoints (handleWindowMouseUp d e st) = [])"
proof (intro conjI impI)
  assume h: "isDrawing st \<and>
      ((activeTool st = SelectTool \<and> dragStart st = Some ds \<and> dragEnd st = Some de \<and>
          (\<bar>p_x de - p_x ds\<bar> \<le> 10 \<or> \<bar>p_y de - p_y ds\<bar> \<le> 10))
       \<or> (activeTool st = BrushTool \<and> length (brushPoints st) \<le> 2))"
  then show eq: "handleWindowMouseUp d e st
          = st\<lparr>isDrawing := False, dragStart := None, dragEnd := None, brushPoints := []\<rparr>"
    using mouseUp_degenerate[of st ds de d e] by blast
  show "pendingHighlight (handleWindowMouseUp d e st) = pendingHighlight st"
    "pendingStrokes (handleWindowMouseUp d e st) = pendingStrokes st"
    "showInput (handleWindowMouseUp d e st) = showInput st"
    "annotations (handleWindowMouseUp d e st) = annotations st"
    by (simp_all add: eq)
  show "annotations (handleSaveAnnotation n1 n2 (handleWindowMouseUp d e st)) = annotations st"
    if "pendingHighlight st = None \<and> pendingStrokes st = []"
    using that by (simp add: eq save_nothing_staged)
next
  assume "isDrawing st"
  then show "\<not> isDrawing (handleWindowMouseUp d e st)" "dragStart (handleWindowMouseUp d e st) = None"
    "dragEnd (handleWindowMouseUp d e st) = None" "brushPoints (handleWindowMouseUp d e st) = []"
    using mouseUp_clears[of st d e] by simp_all
qed

theorem C5_witness:
  "handleWindowMouseUp sampleCanvasDom \<lparr> clientX = 15, clientY = 100 \<rparr> smallRectDrag = initialEditor
   \<and> handleWindowMouseUp sampleCanvasDom \<lparr> clientX = 12, clientY = 11 \<rparr> shortBrushDrag
        = initialEditor\<lparr>activeTool := BrushTool\<rparr>
   \<and> annotations (handleSaveAnnotation 7 7
        (handleWindowMouseUp sampleCanvasDom \<lparr> clientX = 15, clientY = 100 \<rparr> smallRectDrag)) = []"
proof -
  let ?ds = "\<lparr> p_x = 10, p_y = 10 \<rparr>" and ?de = "\<lparr> p_x = 15, p_y = 100 \<rparr>"
  have rect: "isDrawing smallRectDrag \<and>
      ((activeTool smallRectDrag = SelectTool \<and> dragStart smallRectDrag = Some ?ds \<and>
        dragEnd smallRectDrag = Some ?de \<and>
          (\<bar>p_x ?de - p_x ?ds\<bar> \<le> 10 \<or> \<bar>p_y ?de - p_y ?ds\<bar> \<le> 10))
       \<or> (activeTool smallRectDrag = BrushTool \<and> length (brushPoints smallRectDrag) \<le> 2))"
    by (simp add: smallRectDrag_def initialEditor_def)
  have brush: "isDrawing shortBrushDrag \<and>
      ((activeTool shortBrushDrag = SelectTool \<and> dragStart shortBrushDrag = Some ?ds \<and>
        dragEnd shortBrushDrag = Some ?de \<and>
          (\<bar>p_x ?de - p_x ?ds\<bar> \<le> 10 \<or> \<bar>p_y ?de - p_y ?ds\<bar> \<le> 10))
       \<or> (activeTool shortBrushDrag = BrushTool \<and> length (brushPoints shortBrushDrag) \<le> 2))"
    by (simp add: shortBrushDrag_def initialEditor_def)
  note r = C5_degenerate_gesture_stages_nothing[of smallRectDrag ?ds ?de sampleCanvasDom
      "\<lparr> clientX = 15, clientY = 100 \<rparr>" 7 7, THEN conjunct1, rule_format, OF rect]
  note b = C5_degenerate_gesture_stages_nothing[of shortBrushDrag ?ds ?de sampleCanvasDom
      "\<lparr> clientX = 12, clientY = 11 \<rparr>" 7 7, THEN conjunct1, rule_format, OF brush]
  from r have r1: "handleWindowMouseUp sampleCanvasDom \<lparr> clientX = 15, clientY = 100 \<rparr> smallRectDrag
      = smallRectDrag\<lparr>isDrawing := False, dragStart := None, dragEnd := None, brushPoints := []\<rparr>"
    by (rule conjunct1)
  from b have b1: "handleWindowMouseUp sampleCanvasDom \<lparr> clientX = 12, clientY = 11 \<rparr> shortBrushDrag
      = shortBrushDrag\<lparr>isDrawing := False, dragStart := None, dragEnd := None, brushPoints := []\<rparr>"
    by (rule conjunct1)
  have "handleSaveAnnotation 7 7 initialEditor = initialEditor"
    by (simp add: handleSaveAnnotation_def initialEditor_def)
  then show ?thesis
    unfolding r1 b1 by (simp add: smallRectDrag_def shortBrushDrag_def initialEditor_def)
qed

lemma scaled_offset_in_range:
  fixes a r W :: real
  assumes "0 \<le> a" "a \<le> r" "0 < r" "0 \<le> W"
  shows "0 \<le> a * (W / r) \<and> a * (W / r) \<le> W"
proof
  from assms show "0 \<le> a * (W / r)" by simp
  from assms have "a / r \<le> 1" by simp
  with assms(4) have "W * (a / r) \<le> W * 1" by (intro mult_left_mono)
  then have "W * (a / r) \<le> W" by simp
  then show "a * (W / r) \<le> W" by (simp add: mult.commute)
qed

text \<open>
  In exact arithmetic a \<open>mousedown\<close> inside the canvas's bounding rectangle has its
  canvas position in the bitmap. (In binary64 the product at the far edge can exceed the
  bitmap size by a rounding error; the statements below do not rest on this lemma.)
\<close>

lemma getCanvasPos_inBitmap:
  assumes "canvasShows W H canvas" "insideRect (cv_rect canvas) e"
  shows "inBitmap W H (getCanvasPos canvas e)"
proof -
  let ?r = "cv_rect canvas"
  from assms have x: "0 \<le> clientX e - r_left ?r" "clientX e - r_left ?r \<le> r_width ?r"
    and y: "0 \<le> clientY e - r_top ?r" "clientY e - r_top ?r \<le> r_height ?r"
    by (simp_all add: insideRect_def)
  from assms(1) have c: "0 < r_width ?r" "0 < r_height ?r" "0 \<le> W" "0 \<le> H"
    "cv_width canvas = W" "cv_height canvas = H"
    by (simp_all add: canvasShows_def)
  from scaled_offset_in_range[OF x c(1) c(3)] scaled_offset_in_range[OF y c(2) c(4)]
  show ?thesis by (simp add: getCanvasPos_def inBitmap_def Let_def c)
qed


















section \<open>Persistence: proofs\<close>






subsection \<open>The auto-save effect over a run\<close>











text \<open>
  \<open>handleClearAnnotations\<close> is not a change of a run, as no element calls
  \<open>handleFileUpload\<close>. Were it called while a list that is not empty is persisted, the
  same guard would skip the write, and the next load would bring the cleared annotation
  back.
\<close>

lemma handleClearAnnotations_would_be_skipped:
  "autoSaveEffect stringify outcome (handleClearAnnotations [sampleRectA])
       (autoSaveEffect sampleStringify Stored [sampleRectA] storage)
     = Some (sampleStringify [sampleRectA])
   \<and> loadEffect sampleParse
       (autoSaveEffect stringify outcome (handleClearAnnotations [sampleRectA])
          (autoSaveEffect sampleStringify Stored [sampleRectA] storage)) []
     = Some [sampleRectA]"
  by (simp add: loadEffect_def loadEffect_call_def autoSaveEffect_def autoSaveSkips_def
      handleClearAnnotations_def sampleParse_def sampleStringify_def)

section \<open>Image loader: proofs\<close>

subsection \<open>Rounding to binary64\<close>

lemma roundHalfEven_error: "\<bar>of_int (roundHalfEven y) - y\<bar> \<le> 1/2"
  unfolding roundHalfEven_def Let_def by (auto simp: abs_if) linarith+

lemma binade:
  assumes "0 < x"
  shows "2 powr of_int \<lfloor>log 2 x\<rfloor> \<le> x" "x < 2 powr (of_int \<lfloor>log 2 x\<rfloor> + 1)"
proof -
  have "of_int \<lfloor>log 2 x\<rfloor> \<le> log 2 x" by simp
  then have "2 powr of_int \<lfloor>log 2 x\<rfloor> \<le> 2 powr log 2 x" by (simp only: powr_le_cancel_iff) 
  with assms show "2 powr of_int \<lfloor>log 2 x\<rfloor> \<le> x" by simp
  have "log 2 x < of_int \<lfloor>log 2 x\<rfloor> + 1" by linarith
  then have "2 powr log 2 x < 2 powr (of_int \<lfloor>log 2 x\<rfloor> + 1)" by (simp only: powr_less_cancel_iff)
  with assms show "x < 2 powr (of_int \<lfloor>log 2 x\<rfloor> + 1)" by simp
qed

lemma toDouble_pos_eq:
  assumes "0 < x"
  shows "toDouble x = of_int (roundHalfEven (x * 2 powr of_int (52 - \<lfloor>log 2 x\<rfloor>)))
            * 2 powr of_int (\<lfloor>log 2 x\<rfloor> - 52)"
  using assms by (simp add: toDouble_def Let_def)

lemma toDouble_relative_error:
  assumes "0 < x"
  shows "\<bar>toDouble x - x\<bar> \<le> x * unitRoundoff"
proof -
  define e where "e = \<lfloor>log 2 x\<rfloor>"
  define y where "y = x * 2 powr of_int (52 - e)"
  define m where "m = roundHalfEven y"
  have scale: "2 powr of_int (52 - e) * 2 powr of_int (e - 52) = (1::real)"
    by (simp add: powr_add[symmetric])
  have x_eq: "x = y * 2 powr of_int (e - 52)"
    using scale by (simp add: y_def mult.assoc)
  have td: "toDouble x = of_int m * 2 powr of_int (e - 52)"
    using assms by (simp add: toDouble_pos_eq m_def y_def e_def)
  have "\<bar>toDouble x - x\<bar> = \<bar>of_int m - y\<bar> * 2 powr of_int (e - 52)"
  proof -
    have "toDouble x - x = of_int m * 2 powr of_int (e - 52) - y * 2 powr of_int (e - 52)"
      using td x_eq by simp
    then have "toDouble x - x = (of_int m - y) * 2 powr of_int (e - 52)"
      by (simp only: left_diff_distrib)
    then show ?thesis by (simp add: abs_mult)
  qed
  also have "\<dots> \<le> (1/2) * 2 powr of_int (e - 52)"
    using roundHalfEven_error[of y] by (intro mult_right_mono) (simp_all add: m_def)
  also have "\<dots> = 2 powr of_int e / 2 ^ 53"
  proof -
    have "(2::real) powr of_int (e - 52) = 2 powr (of_int e + (- 52))" by simp
    also have "\<dots> = 2 powr of_int e * 2 powr (- 52)" by (rule powr_add)
    also have "(2::real) powr (- 52) = 1 / 2 ^ 52"
      by (simp add: powr_minus_divide)
    finally show ?thesis by simp
  qed
  also have "\<dots> \<le> x / 2 ^ 53"
    using binade(1)[OF assms] by (simp add: e_def divide_right_mono)
  finally show ?thesis by (simp add: unitRoundoff_def)
qed

lemma floor_log2_eq:
  assumes "0 < x" "2 powr of_int k \<le> x" "x < 2 powr (of_int k + 1)"
  shows "\<lfloor>log 2 x\<rfloor> = k"
  using assms floor_log_eq_powr_iff[of x 2 k] by simp

lemma two_powr_int:
  "(2::real) powr of_int (int n) = 2 ^ n" "(2::real) powr of_int (- int n) = 1 / 2 ^ n"
  by (simp_all add: powr_realpow powr_minus_divide)

lemma toDouble_below_one:
  assumes "1 / 2 ^ n \<le> x" "x < 2 / 2 ^ n"
  shows "toDouble x = of_int (roundHalfEven (x * 2 ^ (52 + n))) / 2 ^ (52 + n)"
proof -
  have pos: "0 < x" using assms(1) by (rule less_le_trans[rotated]) simp
  have q: "(2::real) powr (of_int (- int n) + 1) = 2 / 2 ^ n"
    using powr_add[of "2::real" "of_int (- int n)" 1] by (simp only: two_powr_int) simp
  have e: "\<lfloor>log 2 x\<rfloor> = - int n"
    using pos assms by (intro floor_log2_eq) (simp_all only: two_powr_int q)
  have "(52::int) - (- int n) = int (52 + n)" "- int n - 52 = - int (52 + n)" by simp_all
  then have a: "(2::real) powr of_int (52 - (- int n)) = 2 ^ (52 + n)"
    and b: "(2::real) powr of_int (- int n - 52) = 1 / 2 ^ (52 + n)"
    by (simp_all only: two_powr_int)
  show ?thesis
    unfolding toDouble_pos_eq[OF pos] e a b by simp
qed

lemma toDouble_above_one:
  assumes "2 ^ n \<le> x" "x < 2 * 2 ^ n" "n \<le> 52"
  shows "toDouble x = of_int (roundHalfEven (x * 2 ^ (52 - n))) / 2 ^ (52 - n)"
proof -
  have pos: "0 < x" using assms(1) by (rule less_le_trans[rotated]) simp
  have q: "(2::real) powr (of_int (int n) + 1) = 2 * 2 ^ n"
    using powr_add[of "2::real" "of_int (int n)" 1] by (simp only: two_powr_int) simp
  have e: "\<lfloor>log 2 x\<rfloor> = int n"
    using pos assms(1,2) by (intro floor_log2_eq) (simp_all only: two_powr_int q)
  from assms(3) have "(52::int) - int n = int (52 - n)" "int n - 52 = - int (52 - n)" by simp_all
  then have a: "(2::real) powr of_int (52 - int n) = 2 ^ (52 - n)"
    and b: "(2::real) powr of_int (int n - 52) = 1 / 2 ^ (52 - n)"
    by (simp_all only: two_powr_int)
  show ?thesis
    unfolding toDouble_pos_eq[OF pos] e a b by simp
qed

subsection \<open>The scaled dimensions\<close>

lemma unitRoundoff_range: "0 < unitRoundoff" "unitRoundoff < 1"
  by (simp_all add: unitRoundoff_def)

lemma toDouble_bounds:
  assumes "0 < x"
  shows "x * (1 - unitRoundoff) \<le> toDouble x" "toDouble x \<le> x * (1 + unitRoundoff)"
proof -
  from toDouble_relative_error[OF assms]
  have "- (x * unitRoundoff) \<le> toDouble x - x" "toDouble x - x \<le> x * unitRoundoff"
    by (simp_all add: abs_le_iff)
  then show "x * (1 - unitRoundoff) \<le> toDouble x" "toDouble x \<le> x * (1 + unitRoundoff)"
    by (simp_all add: algebra_simps)
qed

lemma min_scaled:
  fixes a b c :: real
  assumes "0 \<le> c"
  shows "min (a * c) (b * c) = min a b * c"
proof (cases "a \<le> b")
  case True
  with assms have "a * c \<le> b * c" by (intro mult_right_mono)
  with True show ?thesis by (simp add: min_def)
next
  case False
  then have "b \<le> a" by simp
  with assms have "b * c \<le> a * c" by (intro mult_right_mono)
  with False show ?thesis by (simp add: min_def)
qed

lemma factor_double_bounds:
  assumes "0 < img_width img" "0 < img_height img"
  shows "exactFactor img * (1 - unitRoundoff) \<le> downscaleFactor img"
    and "downscaleFactor img \<le> exactFactor img * (1 + unitRoundoff)"
    and "0 < exactFactor img"
proof -
  define a where "a = 8192 / real_of_int (img_width img)"
  define b where "b = 8192 / real_of_int (img_height img)"
  from assms have pos: "0 < a" "0 < b" by (simp_all add: a_def b_def)
  have f: "downscaleFactor img = min (toDouble a) (toDouble b)"
    using assms by (simp add: downscaleFactor_def MAX_CANVAS_DIMENSION_def a_def b_def)
  have e: "exactFactor img = min a b" by (simp add: exactFactor_def a_def b_def)
  have u: "0 \<le> 1 - unitRoundoff" "0 \<le> 1 + unitRoundoff"
    using unitRoundoff_range by simp_all
  have "min (a * (1 - unitRoundoff)) (b * (1 - unitRoundoff)) \<le> min (toDouble a) (toDouble b)"
    using toDouble_bounds(1)[OF pos(1)] toDouble_bounds(1)[OF pos(2)] by (rule min.mono)
  then show "exactFactor img * (1 - unitRoundoff) \<le> downscaleFactor img"
    by (simp only: f e min_scaled[OF u(1)])
  have "min (toDouble a) (toDouble b) \<le> min (a * (1 + unitRoundoff)) (b * (1 + unitRoundoff))"
    using toDouble_bounds(2)[OF pos(1)] toDouble_bounds(2)[OF pos(2)] by (rule min.mono)
  then show "downscaleFactor img \<le> exactFactor img * (1 + unitRoundoff)"
    by (simp only: f e min_scaled[OF u(2)])
  from pos show "0 < exactFactor img" by (simp add: e)
qed

lemma product_double_bounds:
  fixes d s s' :: real
  assumes d: "0 < d" and s: "0 < s"
    and lo: "s * (1 - unitRoundoff) \<le> s'" and hi: "s' \<le> s * (1 + unitRoundoff)"
  shows "d * s * ((1 - unitRoundoff) * (1 - unitRoundoff)) \<le> toDouble (d * s')"
    and "toDouble (d * s') \<le> d * s * ((1 + unitRoundoff) * (1 + unitRoundoff))"
proof -
  have u: "0 < 1 - unitRoundoff" "0 < 1 + unitRoundoff"
    using unitRoundoff_range by simp_all
  from s u(1) have "0 < s * (1 - unitRoundoff)" by (rule mult_pos_pos)
  with lo have s': "0 < s'" by linarith
  with d have p: "0 < d * s'" by simp
  have "d * (s * (1 - unitRoundoff)) \<le> d * s'" using lo d by (intro mult_left_mono) simp_all
  then have "d * (s * (1 - unitRoundoff)) * (1 - unitRoundoff) \<le> d * s' * (1 - unitRoundoff)"
    using u(1) by (intro mult_right_mono) simp_all
  also have "\<dots> \<le> toDouble (d * s')" by (rule toDouble_bounds(1)[OF p])
  finally show "d * s * ((1 - unitRoundoff) * (1 - unitRoundoff)) \<le> toDouble (d * s')"
    by (simp only: mult.assoc)
  have "d * s' \<le> d * (s * (1 + unitRoundoff))" using hi d by (intro mult_left_mono) simp_all
  then have "d * s' * (1 + unitRoundoff) \<le> d * (s * (1 + unitRoundoff)) * (1 + unitRoundoff)"
    using u(2) by (intro mult_right_mono) simp_all
  with toDouble_bounds(2)[OF p]
  have "toDouble (d * s') \<le> d * (s * (1 + unitRoundoff)) * (1 + unitRoundoff)" by linarith
  then show "toDouble (d * s') \<le> d * s * ((1 + unitRoundoff) * (1 + unitRoundoff))"
    by (simp only: mult.assoc)
qed

lemma floor_near_fraction:
  fixes N M :: int and P delta :: real
  assumes M: "0 < M" and delta: "delta < 1 / of_int M"
    and lo: "of_int N / of_int M - delta \<le> P" and hi: "P \<le> of_int N / of_int M + delta"
  shows "(of_int N / of_int M :: real) - 1 \<le> of_int \<lfloor>P\<rfloor>"
    and "of_int \<lfloor>P\<rfloor> \<le> (of_int N / of_int M :: real)"
proof -
  define k where "k = \<lfloor>P\<rfloor>"
  have k: "of_int k \<le> P" "P < of_int k + 1" unfolding k_def by linarith+
  from M have Mr: "(0::real) < of_int M" by simp
  show "of_int \<lfloor>P\<rfloor> \<le> (of_int N / of_int M :: real)"
  proof (rule ccontr)
    assume "\<not> of_int \<lfloor>P\<rfloor> \<le> (of_int N / of_int M :: real)"
    then have "of_int N / of_int M < (of_int k :: real)" by (simp add: k_def)
    with Mr have "(of_int N :: real) < of_int k * of_int M" by (simp add: divide_less_eq)
    then have "N < k * M" by (simp only: of_int_mult[symmetric] of_int_less_iff)
    then have "N + 1 \<le> k * M" by simp
    then have "(of_int (N + 1) :: real) \<le> of_int (k * M)" by (simp only: of_int_le_iff)
    then have "(of_int N + 1) / of_int M \<le> (of_int k :: real)"
      using Mr by (simp add: divide_le_eq)
    then have "of_int N / of_int M + 1 / of_int M \<le> (of_int k :: real)"
      by (simp add: add_divide_distrib)
    with delta hi k(1) show False by linarith
  qed
  show "(of_int N / of_int M :: real) - 1 \<le> of_int \<lfloor>P\<rfloor>"
  proof (rule ccontr)
    assume "\<not> (of_int N / of_int M :: real) - 1 \<le> of_int \<lfloor>P\<rfloor>"
    then have "(of_int k :: real) + 1 < of_int N / of_int M" by (simp add: k_def)
    with Mr have "((of_int k :: real) + 1) * of_int M < of_int N" by (simp add: less_divide_eq)
    then have "(of_int ((k + 1) * M) :: real) < of_int N" by simp
    then have "(k + 1) * M < N" by (simp only: of_int_less_iff)
    then have "(k + 1) * M \<le> N - 1" by simp
    then have "(of_int ((k + 1) * M) :: real) \<le> of_int (N - 1)" by (simp only: of_int_le_iff)
    then have "(of_int k + 1 :: real) \<le> (of_int N - 1) / of_int M"
      using Mr by (simp add: le_divide_eq)
    then have "(of_int k + 1 :: real) \<le> of_int N / of_int M - 1 / of_int M"
      by (simp add: diff_divide_distrib)
    with delta lo k(2) show False by linarith
  qed
qed

lemma roundoff_square_bounds:
  "1 - 2 * unitRoundoff \<le> (1 - unitRoundoff) * (1 - unitRoundoff)"
  "(1 + unitRoundoff) * (1 + unitRoundoff) \<le> 1 + 3 * unitRoundoff"
proof -
  have sq: "0 \<le> unitRoundoff * unitRoundoff" by simp
  have "(1 - unitRoundoff) * (1 - unitRoundoff) = 1 - 2 * unitRoundoff + unitRoundoff * unitRoundoff"
    by (simp add: algebra_simps)
  with sq show "1 - 2 * unitRoundoff \<le> (1 - unitRoundoff) * (1 - unitRoundoff)" by linarith
  have "unitRoundoff * unitRoundoff \<le> 1 * unitRoundoff"
    using unitRoundoff_range by (intro mult_right_mono) simp_all
  moreover have "(1 + unitRoundoff) * (1 + unitRoundoff) = 1 + 2 * unitRoundoff + unitRoundoff * unitRoundoff"
    by (simp add: algebra_simps)
  ultimately show "(1 + unitRoundoff) * (1 + unitRoundoff) \<le> 1 + 3 * unitRoundoff" by linarith
qed

lemma rounded_twice_near:
  fixes t :: real
  assumes "0 \<le> t" "t \<le> 8192"
  shows "t - 1 / 2 ^ 38 \<le> t * ((1 - unitRoundoff) * (1 - unitRoundoff))"
    and "t * ((1 + unitRoundoff) * (1 + unitRoundoff)) \<le> t + 1 / 2 ^ 38"
proof -
  have small: "8192 * (3 * unitRoundoff) \<le> 1 / 2 ^ 38" "0 \<le> unitRoundoff"
    by (simp_all add: unitRoundoff_def)
  have tu: "t * unitRoundoff \<le> 8192 * unitRoundoff"
    using assms(2) small(2) by (rule mult_right_mono)
  have nn: "0 \<le> t * unitRoundoff" using assms(1) small(2) by simp
  have "t * (1 - 2 * unitRoundoff) \<le> t * ((1 - unitRoundoff) * (1 - unitRoundoff))"
    using roundoff_square_bounds(1) assms(1) by (rule mult_left_mono)
  moreover have "t * (1 - 2 * unitRoundoff) = t - 2 * (t * unitRoundoff)" by (simp add: algebra_simps)
  ultimately show "t - 1 / 2 ^ 38 \<le> t * ((1 - unitRoundoff) * (1 - unitRoundoff))"
    using tu small nn by linarith
  have "t * ((1 + unitRoundoff) * (1 + unitRoundoff)) \<le> t * (1 + 3 * unitRoundoff)"
    using roundoff_square_bounds(2) assms(1) by (rule mult_left_mono)
  moreover have "t * (1 + 3 * unitRoundoff) = t + 3 * (t * unitRoundoff)" by (simp add: algebra_simps)
  ultimately show "t * ((1 + unitRoundoff) * (1 + unitRoundoff)) \<le> t + 1 / 2 ^ 38"
    using tu small nn by linarith
qed

lemma exactFactor_eq:
  assumes "0 < img_width img" "0 < img_height img"
  shows "exactFactor img = 8192 / real_of_int (max (img_width img) (img_height img))"
proof (cases "img_width img \<le> img_height img")
  case True
  with assms have "8192 / real_of_int (img_height img) \<le> 8192 / real_of_int (img_width img)"
    by (simp add: frac_le)
  with True show ?thesis by (simp add: exactFactor_def max_def min_def)
next
  case False
  with assms have "8192 / real_of_int (img_width img) \<le> 8192 / real_of_int (img_height img)"
    by (simp add: frac_le)
  with False show ?thesis by (simp add: exactFactor_def max_def min_def)
qed

lemma scaled_dimension:
  assumes pos: "0 < img_width img" "0 < img_height img"
    and small: "img_width img < 2 ^ 31" "img_height img < 2 ^ 31"
    and d: "d = img_width img \<or> d = img_height img"
  shows "real_of_int d * exactFactor img - 1 \<le> real_of_int \<lfloor>toDouble (real_of_int d * downscaleFactor img)\<rfloor>"
    and "real_of_int \<lfloor>toDouble (real_of_int d * downscaleFactor img)\<rfloor> \<le> real_of_int d * exactFactor img"
    and "real_of_int d * exactFactor img \<le> 8192"
proof -
  define M where "M = max (img_width img) (img_height img)"
  define N where "N = d * 8192"
  define P where "P = toDouble (real_of_int d * downscaleFactor img)"
  from pos d have dpos: "0 < d" and dM: "d \<le> M" by (auto simp: M_def)
  from pos have Mpos: "0 < M" by (simp add: M_def)
  from small have Msmall: "M < 2 ^ 31" by (simp add: M_def)
  have ds: "real_of_int d * exactFactor img = of_int N / of_int M"
    by (simp add: exactFactor_eq[OF pos] M_def N_def)
  from dM Mpos have "real_of_int d / real_of_int M \<le> 1" by simp
  then have "8192 * (real_of_int d / real_of_int M) \<le> 8192 * 1" by (intro mult_left_mono) simp_all
  then have "real_of_int (d * 8192) / real_of_int M \<le> 8192"
    by (simp add: mult.commute)
  then show le: "real_of_int d * exactFactor img \<le> 8192"
    by (simp only: ds N_def)
  have nn: "0 \<le> real_of_int d * exactFactor img"
    using dpos factor_double_bounds(3)[OF pos] by simp
  note fb = factor_double_bounds[OF pos]
  from dpos have dr: "0 < real_of_int d" by simp
  note pb = product_double_bounds[OF dr fb(3) fb(1) fb(2)]
  note near = rounded_twice_near[OF nn le]
  from near(1) pb(1) have "real_of_int d * exactFactor img - 1 / 2 ^ 38 \<le> P"
    unfolding P_def by (rule order_trans)
  then have lo: "of_int N / of_int M - 1 / 2 ^ 38 \<le> P" by (simp only: ds)
  from pb(2) near(2) have "P \<le> real_of_int d * exactFactor img + 1 / 2 ^ 38"
    unfolding P_def by (rule order_trans)
  then have hi: "P \<le> of_int N / of_int M + 1 / 2 ^ 38" by (simp only: ds)
  have "real_of_int M < 2 ^ 38"
  proof -
    from Msmall have "real_of_int M < 2 ^ 31" by (simp only: of_int_less_numeral_power_cancel_iff)
    also have "(2::real) ^ 31 < 2 ^ 38" by simp
    finally show ?thesis .
  qed
  with Mpos have delta: "(1::real) / 2 ^ 38 < 1 / of_int M"
    by (intro divide_strict_left_mono) simp_all
  from floor_near_fraction[OF Mpos delta lo hi]
  show "real_of_int d * exactFactor img - 1 \<le> real_of_int \<lfloor>toDouble (real_of_int d * downscaleFactor img)\<rfloor>"
    and "real_of_int \<lfloor>toDouble (real_of_int d * downscaleFactor img)\<rfloor> \<le> real_of_int d * exactFactor img"
    by (simp_all only: ds P_def)
qed

text \<open>
  Claim C9, amended. When the image exceeds 8192 in a dimension, the downscale succeeds and
  the scaled bitmap is not empty, the working bitmap has the floors of the rounded products
  of both dimensions with the rounded factor \<open>min (8192 / width) (8192 / height)\<close>:
  each is at most 8192 and at most one pixel below the exactly proportional size, so the
  larger one is 8191 or 8192. An image within the limit is used as it is, and so is the
  original whenever the downscale does not succeed. The counterexample: without a 2d
  context a 12000 by 8000 image stays 12000 by 8000.
\<close>

theorem C9_downscale_dimensions:
  "(0 < img_width img \<and> 0 < img_height img \<and> img_width img < 2 ^ 31 \<and> img_height img < 2 ^ 31 \<and>
      (img_width img > 8192 \<or> img_height img > 8192) \<and> downscaleSucceeds env \<and>
      0 < \<lfloor>toDouble (real_of_int (img_width img) * downscaleFactor img)\<rfloor> \<and>
      0 < \<lfloor>toDouble (real_of_int (img_height img) * downscaleFactor img)\<rfloor>
     \<longrightarrow> img_onload env img =
           \<lparr> img_width = \<lfloor>toDouble (real_of_int (img_width img) * downscaleFactor img)\<rfloor>,
             img_height = \<lfloor>toDouble (real_of_int (img_height img) * downscaleFactor img)\<rfloor> \<rparr>
       \<and> img_width (img_onload env img) \<le> 8192 \<and> img_height (img_onload env img) \<le> 8192
       \<and> 8191 \<le> max (img_width (img_onload env img)) (img_height (img_onload env img))
       \<and> real_of_int (img_width img) * exactFactor img - 1
             \<le> real_of_int (img_width (img_onload env img))
       \<and> real_of_int (img_width (img_onload env img))
             \<le> real_of_int (img_width img) * exactFactor img
       \<and> real_of_int (img_height img) * exactFactor img - 1
             \<le> real_of_int (img_height (img_onload env img))
       \<and> real_of_int (img_height (img_onload env img))
             \<le> real_of_int (img_height img) * exactFactor img)
   \<and> (img_width img \<le> 8192 \<and> img_height img \<le> 8192 \<longrightarrow> img_onload env img = img)
   \<and> (\<not> downscaleSucceeds env \<longrightarrow> img_onload env img = img)"
proof (intro conjI impI)
  assume h: "0 < img_width img \<and> 0 < img_height img \<and> img_width img < 2 ^ 31 \<and> img_height img < 2 ^ 31 \<and>
      (img_width img > 8192 \<or> img_height img > 8192) \<and> downscaleSucceeds env \<and>
      0 < \<lfloor>toDouble (real_of_int (img_width img) * downscaleFactor img)\<rfloor> \<and>
      0 < \<lfloor>toDouble (real_of_int (img_height img) * downscaleFactor img)\<rfloor>"
  define W' where "W' = \<lfloor>toDouble (real_of_int (img_width img) * downscaleFactor img)\<rfloor>"
  define H' where "H' = \<lfloor>toDouble (real_of_int (img_height img) * downscaleFactor img)\<rfloor>"
  from h have pos: "0 < img_width img" "0 < img_height img"
    and small: "img_width img < 2 ^ 31" "img_height img < 2 ^ 31" by simp_all
  from h have big: "real_of_int (img_width img) > MAX_CANVAS_DIMENSION \<or>
         real_of_int (img_height img) > MAX_CANVAS_DIMENSION"
    by (auto simp: MAX_CANVAS_DIMENSION_def)
  from h have env: "ctx_available env" "blob_created env" "downscaled_loads env"
    by (simp_all add: downscaleSucceeds_def)
  from h have nonempty: "0 < W'" "0 < H'" by (simp_all only: W'_def H'_def)
  have eq0: "img_onload env img = \<lparr> img_width = W', img_height = H' \<rparr>"
    unfolding img_onload_def Let_def W'_def[symmetric] H'_def[symmetric]
    using big env nonempty by simp
  then show eq: "img_onload env img =
           \<lparr> img_width = \<lfloor>toDouble (real_of_int (img_width img) * downscaleFactor img)\<rfloor>,
             img_height = \<lfloor>toDouble (real_of_int (img_height img) * downscaleFactor img)\<rfloor> \<rparr>"
    by (simp only: W'_def H'_def)
  note w = scaled_dimension[OF pos small, of "img_width img", folded W'_def]
  note h' = scaled_dimension[OF pos small, of "img_height img", folded H'_def]
  have wb: "real_of_int (img_width img) * exactFactor img - 1 \<le> real_of_int W'"
    "real_of_int W' \<le> real_of_int (img_width img) * exactFactor img"
    "real_of_int (img_width img) * exactFactor img \<le> 8192"
    using w by simp_all
  have hb: "real_of_int (img_height img) * exactFactor img - 1 \<le> real_of_int H'"
    "real_of_int H' \<le> real_of_int (img_height img) * exactFactor img"
    "real_of_int (img_height img) * exactFactor img \<le> 8192"
    using h' by simp_all
  from wb(2,3) have "real_of_int W' \<le> 8192" by linarith
  then show "img_width (img_onload env img) \<le> 8192" by (simp add: eq0)
  from hb(2,3) have "real_of_int H' \<le> 8192" by linarith
  then show "img_height (img_onload env img) \<le> 8192" by (simp add: eq0)
  have "real_of_int (img_width img) * exactFactor img = 8192 \<or>
        real_of_int (img_height img) * exactFactor img = 8192"
    using pos by (simp add: exactFactor_eq[OF pos] max_def)
  with wb(1) hb(1) have "8191 \<le> real_of_int W' \<or> 8191 \<le> real_of_int H'" by linarith
  then have "8191 \<le> W' \<or> 8191 \<le> H'" by simp
  then show "8191 \<le> max (img_width (img_onload env img)) (img_height (img_onload env img))"
    by (simp add: eq0 le_max_iff_disj)
  show "real_of_int (img_width img) * exactFactor img - 1
             \<le> real_of_int (img_width (img_onload env img))"
    "real_of_int (img_width (img_onload env img))
             \<le> real_of_int (img_width img) * exactFactor img"
    "real_of_int (img_height img) * exactFactor img - 1
             \<le> real_of_int (img_height (img_onload env img))"
    "real_of_int (img_height (img_onload env img))
             \<le> real_of_int (img_height img) * exactFactor img"
    using wb hb by (simp_all add: eq0)
next
  assume "img_width img \<le> 8192 \<and> img_height img \<le> 8192"
  then show "img_onload env img = img"
    by (simp add: img_onload_def MAX_CANVAS_DIMENSION_def)
next
  assume "\<not> downscaleSucceeds env"
  then show "img_onload env img = img"
    by (auto simp: img_onload_def Let_def downscaleSucceeds_def)
qed

subsection \<open>Two images in binary64\<close>

lemma rounded_12000:
  "toDouble (8192 / 12000) = 6148914691236517 / 2 ^ 53"
proof -
  have a: "toDouble (8192 / 12000) = of_int (roundHalfEven (8192 / 12000 * 2 ^ (52 + 1))) / 2 ^ (52 + 1)"
    by (rule toDouble_below_one) simp_all
  have b: "roundHalfEven (8192 / 12000 * 2 ^ (52 + 1)) = 6148914691236517"
    by (simp add: roundHalfEven_def Let_def)
  show ?thesis unfolding a b by simp
qed

lemma rounded_8000:
  "toDouble (8192 / 8000) = 4611686018427388 / 2 ^ 52"
proof -
  have a: "toDouble (8192 / 8000) = of_int (roundHalfEven (8192 / 8000 * 2 ^ (52 - 0))) / 2 ^ (52 - 0)"
    by (rule toDouble_above_one) simp_all
  have b: "roundHalfEven (8192 / 8000 * 2 ^ (52 - 0)) = 4611686018427388"
    by (simp add: roundHalfEven_def Let_def)
  show ?thesis unfolding a b by simp
qed

lemma rounded_8474:
  "toDouble (8192 / 8474) = 8707455309751971 / 2 ^ 53"
proof -
  have a: "toDouble (8192 / 8474) = of_int (roundHalfEven (8192 / 8474 * 2 ^ (52 + 1))) / 2 ^ (52 + 1)"
    by (rule toDouble_below_one) simp_all
  have b: "roundHalfEven (8192 / 8474 * 2 ^ (52 + 1)) = 8707455309751971"
    by (simp add: roundHalfEven_def Let_def)
  show ?thesis unfolding a b by simp
qed

lemma rounded_6000:
  "toDouble (8192 / 6000) = 6148914691236517 / 2 ^ 52"
proof -
  have a: "toDouble (8192 / 6000) = of_int (roundHalfEven (8192 / 6000 * 2 ^ (52 - 0))) / 2 ^ (52 - 0)"
    by (rule toDouble_above_one) simp_all
  have b: "roundHalfEven (8192 / 6000 * 2 ^ (52 - 0)) = 6148914691236517"
    by (simp add: roundHalfEven_def Let_def)
  show ?thesis unfolding a b by simp
qed

lemma sample_factors:
  "downscaleFactor sampleImage = 6148914691236517 / 2 ^ 53"
  "downscaleFactor unluckyImage = 8707455309751971 / 2 ^ 53"
proof -
  have "downscaleFactor sampleImage = min (toDouble (8192 / 12000)) (toDouble (8192 / 8000))"
    by (simp add: downscaleFactor_def sampleImage_def MAX_CANVAS_DIMENSION_def)
  then show "downscaleFactor sampleImage = 6148914691236517 / 2 ^ 53"
    unfolding rounded_12000 rounded_8000 by simp
  have "downscaleFactor unluckyImage = min (toDouble (8192 / 8474)) (toDouble (8192 / 6000))"
    by (simp add: downscaleFactor_def unluckyImage_def MAX_CANVAS_DIMENSION_def)
  then show "downscaleFactor unluckyImage = 8707455309751971 / 2 ^ 53"
    unfolding rounded_8474 rounded_6000 by simp
qed

lemma floor_12000:
  "\<lfloor>toDouble (12000 * (6148914691236517 / 2 ^ 53))\<rfloor> = 8192"
proof -
  have a: "toDouble (12000 * (6148914691236517 / 2 ^ 53)) = of_int (roundHalfEven (12000 * (6148914691236517 / 2 ^ 53) * 2 ^ (52 - 12))) / 2 ^ (52 - 12)"
    by (rule toDouble_above_one) simp_all
  have b: "roundHalfEven (12000 * (6148914691236517 / 2 ^ 53) * 2 ^ (52 - 12)) = 9007199254740992"
    by (simp add: roundHalfEven_def Let_def)
  show ?thesis unfolding a b by (simp add: floor_eq_iff)
qed

lemma floor_8000:
  "\<lfloor>toDouble (8000 * (6148914691236517 / 2 ^ 53))\<rfloor> = 5461"
proof -
  have a: "toDouble (8000 * (6148914691236517 / 2 ^ 53)) = of_int (roundHalfEven (8000 * (6148914691236517 / 2 ^ 53) * 2 ^ (52 - 12))) / 2 ^ (52 - 12)"
    by (rule toDouble_above_one) simp_all
  have b: "roundHalfEven (8000 * (6148914691236517 / 2 ^ 53) * 2 ^ (52 - 12)) = 6004799503160661"
    by (simp add: roundHalfEven_def Let_def)
  show ?thesis unfolding a b by (simp add: floor_eq_iff)
qed

lemma floor_8474:
  "\<lfloor>toDouble (8474 * (8707455309751971 / 2 ^ 53))\<rfloor> = 8191"
proof -
  have a: "toDouble (8474 * (8707455309751971 / 2 ^ 53)) = of_int (roundHalfEven (8474 * (8707455309751971 / 2 ^ 53) * 2 ^ (52 - 12))) / 2 ^ (52 - 12)"
    by (rule toDouble_above_one) simp_all
  have b: "roundHalfEven (8474 * (8707455309751971 / 2 ^ 53) * 2 ^ (52 - 12)) = 9007199254740991"
    by (simp add: roundHalfEven_def Let_def)
  show ?thesis unfolding a b by (simp add: floor_eq_iff)
qed

lemma floor_6000:
  "\<lfloor>toDouble (6000 * (8707455309751971 / 2 ^ 53))\<rfloor> = 5800"
proof -
  have a: "toDouble (6000 * (8707455309751971 / 2 ^ 53)) = of_int (roundHalfEven (6000 * (8707455309751971 / 2 ^ 53) * 2 ^ (52 - 12))) / 2 ^ (52 - 12)"
    by (rule toDouble_above_one) simp_all
  have b: "roundHalfEven (6000 * (8707455309751971 / 2 ^ 53) * 2 ^ (52 - 12)) = 6377530744447244"
    by (simp add: roundHalfEven_def Let_def)
  show ?thesis unfolding a b by (simp add: floor_eq_iff)
qed

lemma downscale_examples:
  "img_onload allSucceed sampleImage = \<lparr> img_width = 8192, img_height = 5461 \<rparr>"
  "img_onload allSucceed unluckyImage = \<lparr> img_width = 8191, img_height = 5800 \<rparr>"
proof -
  have "img_onload allSucceed sampleImage =
      (if 0 < \<lfloor>toDouble (12000 * downscaleFactor sampleImage)\<rfloor> \<and>
          0 < \<lfloor>toDouble (8000 * downscaleFactor sampleImage)\<rfloor>
       then \<lparr> img_width = \<lfloor>toDouble (12000 * downscaleFactor sampleImage)\<rfloor>,
              img_height = \<lfloor>toDouble (8000 * downscaleFactor sampleImage)\<rfloor> \<rparr>
       else sampleImage)"
    by (simp add: img_onload_def Let_def allSucceed_def MAX_CANVAS_DIMENSION_def sampleImage_def
        del: zero_less_floor)
  then show "img_onload allSucceed sampleImage = \<lparr> img_width = 8192, img_height = 5461 \<rparr>"
    unfolding sample_factors floor_12000 floor_8000 by simp
  have "img_onload allSucceed unluckyImage =
      (if 0 < \<lfloor>toDouble (8474 * downscaleFactor unluckyImage)\<rfloor> \<and>
          0 < \<lfloor>toDouble (6000 * downscaleFactor unluckyImage)\<rfloor>
       then \<lparr> img_width = \<lfloor>toDouble (8474 * downscaleFactor unluckyImage)\<rfloor>,
              img_height = \<lfloor>toDouble (6000 * downscaleFactor unluckyImage)\<rfloor> \<rparr>
       else unluckyImage)"
    by (simp add: img_onload_def Let_def allSucceed_def MAX_CANVAS_DIMENSION_def unluckyImage_def
        del: zero_less_floor)
  then show "img_onload allSucceed unluckyImage = \<lparr> img_width = 8191, img_height = 5800 \<rparr>"
    unfolding sample_factors floor_8474 floor_6000 by simp
qed

theorem C9_witness:
  "img_onload allSucceed sampleImage = \<lparr> img_width = 8192, img_height = 5461 \<rparr>
   \<and> img_width (img_onload allSucceed sampleImage) \<le> 8192
   \<and> img_onload noContext \<lparr> img_width = 800, img_height = 600 \<rparr>
       = \<lparr> img_width = 800, img_height = 600 \<rparr>"
proof -
  have f: "\<lfloor>toDouble (real_of_int (img_width sampleImage) * downscaleFactor sampleImage)\<rfloor> = 8192"
    "\<lfloor>toDouble (real_of_int (img_height sampleImage) * downscaleFactor sampleImage)\<rfloor> = 5461"
    unfolding sample_factors using floor_12000 floor_8000 by (simp_all add: sampleImage_def)
  have h: "0 < img_width sampleImage \<and> 0 < img_height sampleImage \<and>
      img_width sampleImage < 2 ^ 31 \<and> img_height sampleImage < 2 ^ 31 \<and>
      (img_width sampleImage > 8192 \<or> img_height sampleImage > 8192) \<and> downscaleSucceeds allSucceed \<and>
      0 < \<lfloor>toDouble (real_of_int (img_width sampleImage) * downscaleFactor sampleImage)\<rfloor> \<and>
      0 < \<lfloor>toDouble (real_of_int (img_height sampleImage) * downscaleFactor sampleImage)\<rfloor>"
    unfolding f by (simp add: sampleImage_def downscaleSucceeds_def allSucceed_def)
  note t = C9_downscale_dimensions[of sampleImage allSucceed, THEN conjunct1, rule_format, OF h]
  from t have "img_onload allSucceed sampleImage =
      \<lparr> img_width = \<lfloor>toDouble (real_of_int (img_width sampleImage) * downscaleFactor sampleImage)\<rfloor>,
        img_height = \<lfloor>toDouble (real_of_int (img_height sampleImage) * downscaleFactor sampleImage)\<rfloor> \<rparr>"
    by (rule conjunct1)
  then have one: "img_onload allSucceed sampleImage = \<lparr> img_width = 8192, img_height = 5461 \<rparr>"
    by (simp only: f)
  from t have two: "img_width (img_onload allSucceed sampleImage) \<le> 8192"
    by (elim conjE)
  have three: "img_onload noContext \<lparr> img_width = 800, img_height = 600 \<rparr>
       = \<lparr> img_width = 800, img_height = 600 \<rparr>"
    using C9_downscale_dimensions[of "\<lparr> img_width = 800, img_height = 600 \<rparr>" noContext]
    by simp
  from one two three show ?thesis by (intro conjI)
qed

theorem C9_counterexample:
  "img_onload noContext sampleImage = sampleImage
   \<and> img_width sampleImage > 8192
   \<and> max (img_width (img_onload noContext sampleImage)) (img_height (img_onload noContext sampleImage))
       \<noteq> 8192"
  by (simp add: img_onload_def Let_def noContext_def sampleImage_def MAX_CANVAS_DIMENSION_def)

end
